theory Spec2Isabelle
  imports Main "HOL-Library.AList" "HOL-Library.Multiset"
begin

section \<open>The statement mapper (mapper.go)\<close>

subsection \<open>Values of the database/sql package\<close>

text \<open>
  The package works on pointers handed out by \<^verbatim>\<open>database/sql\<close>. A non-nil pointer is a
  handle (a number naming the object); a pointer that may be nil is an \<open>option\<close> of it.
\<close>

type_synonym db = nat
type_synonym stmt = nat
type_synonym result = nat
type_synonym rows = nat
type_synonym row = nat

text \<open>The variadic \<^verbatim>\<open>args ...interface{}\<close> are passed on untouched.\<close>

datatype arg = ArgInt int | ArgStr string

text \<open>
  \<^verbatim>\<open>context.Background()\<close> is never done; any other context is named by a number and
  the environment says whether it is done.
\<close>

datatype ctx = Background | Ctx nat

text \<open>
  A Go \<^verbatim>\<open>error\<close> is either the package's own \<^verbatim>\<open>errval{e, s}\<close> or an error made
  elsewhere (by the driver, or by the context).
\<close>

datatype error = Errval "error option" string | Foreign string

fun Error :: "error \<Rightarrow> string" where
  "Error (Errval None s) = s"
| "Error (Errval (Some e) s) = s @ '': '' @ Error e"
| "Error (Foreign t) = t"

fun Unwrap :: "error \<Rightarrow> error option" where
  "Unwrap (Errval e s) = e"
| "Unwrap (Foreign t) = None"

definition ErrInvalidDB :: error where
  "ErrInvalidDB = Errval None ''database cannot be nil''"

subsection \<open>The environment: driver and contexts\<close>

text \<open>
  Every call that leaves the package is written to a log, in the order made. What such a
  call answers is given by the environment as a function of the log so far, so the
  answers may change from call to call in any way.
\<close>

datatype event =
    CtxPoll ctx
  | DbPrepare db ctx string
  | DbExec db ctx string
  | DbClose db
  | StmtClose stmt
  | StmtExec stmt ctx "arg list"
  | StmtQuery stmt ctx "arg list"
  | StmtQueryRow stmt ctx "arg list"

record driver =
  ctx_done :: "event list \<Rightarrow> nat \<Rightarrow> error option"
  db_prepare :: "event list \<Rightarrow> db \<Rightarrow> ctx \<Rightarrow> string \<Rightarrow> error + stmt"
  db_exec :: "event list \<Rightarrow> db \<Rightarrow> ctx \<Rightarrow> string \<Rightarrow> error option"
  db_close :: "event list \<Rightarrow> db \<Rightarrow> error option"
  stmt_close :: "event list \<Rightarrow> stmt \<Rightarrow> error option"
  stmt_exec :: "event list \<Rightarrow> stmt \<Rightarrow> ctx \<Rightarrow> arg list \<Rightarrow> result option \<times> error option"
  stmt_query :: "event list \<Rightarrow> stmt \<Rightarrow> ctx \<Rightarrow> arg list \<Rightarrow> rows option \<times> error option"
  stmt_query_row :: "event list \<Rightarrow> stmt \<Rightarrow> ctx \<Rightarrow> arg list \<Rightarrow> row"

text \<open>
  The non-blocking \<^verbatim>\<open>select { case <-x.Done(): err = x.Err() default: }\<close>: the error of
  the context when it is done, nothing otherwise.
\<close>

definition poll :: "driver \<Rightarrow> event list \<Rightarrow> ctx \<Rightarrow> error option" where
  "poll env tr x = (case x of Background \<Rightarrow> None | Ctx c \<Rightarrow> ctx_done env tr c)"

subsection \<open>The Map struct\<close>

text \<open>
  \<^verbatim>\<open>entries map[string]*sql.Stmt\<close> is nil until the first insert. A Go map is listed as
  its pairs in the order in which \<^verbatim>\<open>range\<close> yields them in the call at hand; Go leaves
  that order open, and so every statement below is made for every listing. The lock is
  not modelled: calls are taken one at a time.
\<close>

type_synonym entry_list = "(string \<times> stmt option) list"

record Map_struct =
  Database :: "db option"
  entries :: "entry_list option"

text \<open>A call either returns or panics (a nil pointer is dereferenced).\<close>

datatype 'a outcome = Panics | Returns 'a

text \<open>\<^verbatim>\<open>len(m.entries)\<close>, which is 0 for the nil map.\<close>

definition len_entries :: "Map_struct \<Rightarrow> nat" where
  "len_entries m = (case entries m of None \<Rightarrow> 0 | Some es \<Rightarrow> length es)"

text \<open>\<^verbatim>\<open>s, ok := m.entries[name]\<close>; reading the nil map finds nothing.\<close>

definition index :: "Map_struct \<Rightarrow> string \<Rightarrow> stmt option \<times> bool" where
  "index m name =
     (case entries m of
        None \<Rightarrow> (None, False)
      | Some es \<Rightarrow> (case map_of es name of None \<Rightarrow> (None, False) | Some s \<Rightarrow> (s, True)))"

text \<open>\<^verbatim>\<open>make(map[string]*sql.Stmt, n)\<close> when the map is nil.\<close>

definition made :: "Map_struct \<Rightarrow> entry_list" where
  "made m = (case entries m of None \<Rightarrow> [] | Some es \<Rightarrow> es)"

subsection \<open>Len, Contains, Get\<close>

definition Len :: "Map_struct \<Rightarrow> int" where
  "Len m = (case entries m of None \<Rightarrow> 0 | Some es \<Rightarrow> int (length es))"

definition Contains :: "Map_struct \<Rightarrow> string \<Rightarrow> bool" where
  "Contains m name =
     (if len_entries m = 0 then False
      else (case index m name of (s, ok) \<Rightarrow> ok \<and> s \<noteq> None))"

definition Get :: "Map_struct \<Rightarrow> string \<Rightarrow> stmt option \<times> bool" where
  "Get m name = (if len_entries m = 0 then (None, False) else index m name)"

subsection \<open>Close\<close>

definition close_msg :: "string \<Rightarrow> string" where
  \<open>close_msg k = ''error closing mapping "'' @ k @ ''"''\<close>

text \<open>
  The loop of \<open>Close\<close> over the pairs still to visit; \<open>cur\<close> is the map as written so
  far (\<^verbatim>\<open>m.entries[k] = nil\<close> keeps the key).
\<close>

fun Close_loop ::
  "driver \<Rightarrow> entry_list \<Rightarrow> entry_list \<Rightarrow> event list \<Rightarrow> error option \<times> entry_list \<times> event list"
where
  "Close_loop env [] cur tr = (None, cur, tr)"
| "Close_loop env ((k, v) # rest) cur tr =
     (case v of
        None \<Rightarrow> Close_loop env rest cur tr
      | Some s \<Rightarrow>
          (case stmt_close env tr s of
             Some e \<Rightarrow> (Some (Errval (Some e) (close_msg k)), cur, tr @ [StmtClose s])
           | None \<Rightarrow> Close_loop env rest (AList.update k None cur) (tr @ [StmtClose s])))"

text \<open>
  After the loop: the error of the loop if there is one, otherwise
  \<^verbatim>\<open>return m.Database.Close()\<close>, which dereferences \<open>m.Database\<close>.
\<close>

definition Close ::
  "driver \<Rightarrow> Map_struct \<times> event list \<Rightarrow> (error option \<times> Map_struct \<times> event list) outcome"
where
  "Close env st =
     (case st of (m, tr) \<Rightarrow>
        (case (case entries m of
                 None \<Rightarrow> (None, None, tr)
               | Some es \<Rightarrow> (case Close_loop env es es tr of (err, cur, tr') \<Rightarrow> (err, Some cur, tr')))
         of (err, ents, tr') \<Rightarrow>
           (if err \<noteq> None then Returns (err, m\<lparr>entries := ents\<rparr>, tr')
            else (case Database m of
                    None \<Rightarrow> Panics
                  | Some d \<Rightarrow> Returns (db_close env tr' d, m\<lparr>entries := ents\<rparr>, tr' @ [DbClose d])))))"

subsection \<open>Remove\<close>

text \<open>
  \<^verbatim>\<open>s.Close()\<close> is called on whatever the map holds for the name, its result dropped;
  on a nil \<open>s\<close> it dereferences nil.
\<close>

definition Remove ::
  "driver \<Rightarrow> string \<Rightarrow> Map_struct \<times> event list \<Rightarrow> (bool \<times> Map_struct \<times> event list) outcome"
where
  "Remove env name st =
     (case st of (m, tr) \<Rightarrow>
        (case entries m of
           None \<Rightarrow> Returns (False, m, tr)
         | Some es \<Rightarrow>
             (case index m name of
                (s, ok) \<Rightarrow>
                  (if \<not> ok then Returns (False, m, tr)
                   else (case s of
                           None \<Rightarrow> Panics
                         | Some h \<Rightarrow>
                             (let dropped = stmt_close env tr h
                              in Returns (True, m\<lparr>entries := Some (AList.delete name es)\<rparr>,
                                          tr @ [StmtClose h])))))))"

subsection \<open>AddContext and Add\<close>

definition exists_msg :: "string \<Rightarrow> string" where
  \<open>exists_msg name = ''statement with name "'' @ name @ ''" already exists''\<close>

definition adding_msg :: "string \<Rightarrow> string" where
  \<open>adding_msg name = ''error adding mapping "'' @ name @ ''"''\<close>

definition AddContext ::
  "driver \<Rightarrow> ctx \<Rightarrow> string \<Rightarrow> string \<Rightarrow> Map_struct \<times> event list
     \<Rightarrow> error option \<times> Map_struct \<times> event list"
where
  "AddContext env x name query st =
     (case st of (m, tr) \<Rightarrow>
        (case Database m of
           None \<Rightarrow> (Some ErrInvalidDB, m, tr)
         | Some d \<Rightarrow>
             (let m1 = m\<lparr>entries := Some (made m)\<rparr> in
                (case index m1 name of
                   (s, ok) \<Rightarrow>
                     (if ok \<and> s \<noteq> None then (Some (Errval None (exists_msg name)), m1, tr)
                      else (case db_prepare env tr d x query of
                              Inr h \<Rightarrow>
                                (None, m1\<lparr>entries := Some (AList.update name (Some h) (made m))\<rparr>,
                                 tr @ [DbPrepare d x query])
                            | Inl e \<Rightarrow>
                                (Some (Errval (Some e) (adding_msg name)), m1,
                                 tr @ [DbPrepare d x query])))))))"

definition Add ::
  "driver \<Rightarrow> string \<Rightarrow> string \<Rightarrow> Map_struct \<times> event list \<Rightarrow> error option \<times> Map_struct \<times> event list"
where
  "Add env name query st = AddContext env Background name query st"

subsection \<open>BatchContext and Batch\<close>

definition batch_msg :: "string \<Rightarrow> string" where
  \<open>batch_msg q = ''error executing Init statement mapping "'' @ q @ ''"''\<close>

fun Batch_loop ::
  "driver \<Rightarrow> ctx \<Rightarrow> db \<Rightarrow> string list \<Rightarrow> event list \<Rightarrow> error option \<times> event list"
where
  "Batch_loop env x d [] tr = (None, tr)"
| "Batch_loop env x d (q # rest) tr =
     (case poll env tr x of
        Some e \<Rightarrow> (Some e, tr @ [CtxPoll x])
      | None \<Rightarrow>
          (case db_exec env (tr @ [CtxPoll x]) d x q of
             Some e \<Rightarrow> (Some (Errval (Some e) (batch_msg q)), tr @ [CtxPoll x, DbExec d x q])
           | None \<Rightarrow> Batch_loop env x d rest (tr @ [CtxPoll x, DbExec d x q])))"

text \<open>\<open>BatchContext\<close> assigns to no field of the struct, so only the log is returned.\<close>

definition BatchContext ::
  "driver \<Rightarrow> ctx \<Rightarrow> string list \<Rightarrow> Map_struct \<times> event list \<Rightarrow> error option \<times> event list"
where
  "BatchContext env x queries st =
     (case st of (m, tr) \<Rightarrow>
        (if length queries = 0 then (None, tr)
         else (case Database m of
                 None \<Rightarrow> (Some ErrInvalidDB, tr)
               | Some d \<Rightarrow> Batch_loop env x d queries tr)))"

definition Batch ::
  "driver \<Rightarrow> string list \<Rightarrow> Map_struct \<times> event list \<Rightarrow> error option \<times> event list"
where
  "Batch env queries st = BatchContext env Background queries st"

subsection \<open>ExtendContext and Extend\<close>

text \<open>
  \<open>data\<close> is a Go map that may be nil: \<open>None\<close>, or its pairs in the order \<^verbatim>\<open>range\<close>
  yields them.
\<close>

fun Extend_loop ::
  "driver \<Rightarrow> ctx \<Rightarrow> db \<Rightarrow> (string \<times> string) list \<Rightarrow> entry_list \<Rightarrow> event list
     \<Rightarrow> error option \<times> entry_list \<times> event list"
where
  "Extend_loop env x d [] cur tr = (None, cur, tr)"
| "Extend_loop env x d ((k, v) # rest) cur tr =
     (case poll env tr x of
        Some e \<Rightarrow> (Some e, cur, tr @ [CtxPoll x])
      | None \<Rightarrow>
          (case map_of cur k of
             Some (Some s) \<Rightarrow> (Some (Errval None (exists_msg k)), cur, tr @ [CtxPoll x])
           | _ \<Rightarrow>
               (case db_prepare env (tr @ [CtxPoll x]) d x v of
                  Inl e \<Rightarrow>
                    (Some (Errval (Some e) (adding_msg k)), cur, tr @ [CtxPoll x, DbPrepare d x v])
                | Inr h \<Rightarrow>
                    Extend_loop env x d rest (AList.update k (Some h) cur)
                      (tr @ [CtxPoll x, DbPrepare d x v]))))"

definition ExtendContext ::
  "driver \<Rightarrow> ctx \<Rightarrow> (string \<times> string) list option \<Rightarrow> Map_struct \<times> event list
     \<Rightarrow> error option \<times> Map_struct \<times> event list"
where
  "ExtendContext env x data st =
     (case st of (m, tr) \<Rightarrow>
        (case data of
           None \<Rightarrow> (None, m, tr)
         | Some kvs \<Rightarrow>
             (case Database m of
                None \<Rightarrow> (Some ErrInvalidDB, m, tr)
              | Some d \<Rightarrow>
                  (case Extend_loop env x d kvs (made m) tr of
                     (err, cur, tr') \<Rightarrow> (err, m\<lparr>entries := Some cur\<rparr>, tr')))))"

definition Extend ::
  "driver \<Rightarrow> (string \<times> string) list option \<Rightarrow> Map_struct \<times> event list
     \<Rightarrow> error option \<times> Map_struct \<times> event list"
where
  "Extend env data st = ExtendContext env Background data st"

subsection \<open>ExecContext, QueryContext, QueryRowContext\<close>

definition missing_msg :: "string \<Rightarrow> string" where
  \<open>missing_msg name = ''statement with name "'' @ name @ ''" does not exist''\<close>

definition ExecContext ::
  "driver \<Rightarrow> ctx \<Rightarrow> string \<Rightarrow> arg list \<Rightarrow> Map_struct \<times> event list
     \<Rightarrow> (result option \<times> error option) \<times> event list"
where
  "ExecContext env x name args st =
     (case st of (m, tr) \<Rightarrow>
        (case Database m of
           None \<Rightarrow> ((None, Some ErrInvalidDB), tr)
         | Some d \<Rightarrow>
             (if len_entries m = 0 then ((None, Some (Errval None (missing_msg name))), tr)
              else (case index m name of
                      (s, ok) \<Rightarrow>
                        (case (if \<not> ok then None else s) of
                           None \<Rightarrow> ((None, Some (Errval None (missing_msg name))), tr)
                         | Some h \<Rightarrow> (stmt_exec env tr h x args, tr @ [StmtExec h x args]))))))"

definition QueryContext ::
  "driver \<Rightarrow> ctx \<Rightarrow> string \<Rightarrow> arg list \<Rightarrow> Map_struct \<times> event list
     \<Rightarrow> (rows option \<times> error option) \<times> event list"
where
  "QueryContext env x name args st =
     (case st of (m, tr) \<Rightarrow>
        (case Database m of
           None \<Rightarrow> ((None, Some ErrInvalidDB), tr)
         | Some d \<Rightarrow>
             (if len_entries m = 0 then ((None, Some (Errval None (missing_msg name))), tr)
              else (case index m name of
                      (s, ok) \<Rightarrow>
                        (case (if \<not> ok then None else s) of
                           None \<Rightarrow> ((None, Some (Errval None (missing_msg name))), tr)
                         | Some h \<Rightarrow> (stmt_query env tr h x args, tr @ [StmtQuery h x args]))))))"

text \<open>\<^verbatim>\<open>(*sql.Stmt).QueryRowContext\<close> always hands back a row object, never nil.\<close>

definition QueryRowContext ::
  "driver \<Rightarrow> ctx \<Rightarrow> string \<Rightarrow> arg list \<Rightarrow> Map_struct \<times> event list
     \<Rightarrow> (row option \<times> bool) \<times> event list"
where
  "QueryRowContext env x name args st =
     (case st of (m, tr) \<Rightarrow>
        (case Database m of
           None \<Rightarrow> ((None, False), tr)
         | Some d \<Rightarrow>
             (if len_entries m = 0 then ((None, False), tr)
              else (case index m name of
                      (s, ok) \<Rightarrow>
                        (case (if \<not> ok then None else s) of
                           None \<Rightarrow> ((None, False), tr)
                         | Some h \<Rightarrow>
                             ((Some (stmt_query_row env tr h x args), True),
                              tr @ [StmtQueryRow h x args]))))))"

definition Exec ::
  "driver \<Rightarrow> string \<Rightarrow> arg list \<Rightarrow> Map_struct \<times> event list
     \<Rightarrow> (result option \<times> error option) \<times> event list"
where
  "Exec env name args st = ExecContext env Background name args st"

definition Query ::
  "driver \<Rightarrow> string \<Rightarrow> arg list \<Rightarrow> Map_struct \<times> event list
     \<Rightarrow> (rows option \<times> error option) \<times> event list"
where
  "Query env name args st = QueryContext env Background name args st"

definition QueryRow ::
  "driver \<Rightarrow> string \<Rightarrow> arg list \<Rightarrow> Map_struct \<times> event list
     \<Rightarrow> (row option \<times> bool) \<times> event list"
where
  "QueryRow env name args st = QueryRowContext env Background name args st"

subsection \<open>Notions used to state the properties\<close>

text \<open>The non-nil handle a name is mapped to, if there is one.\<close>

definition handle_of :: "Map_struct \<Rightarrow> string \<Rightarrow> stmt option" where
  "handle_of m name =
     (case entries m of
        None \<Rightarrow> None
      | Some es \<Rightarrow> (case map_of es name of Some (Some h) \<Rightarrow> Some h | _ \<Rightarrow> None))"

text \<open>
  The states a registry can be in: a fresh struct (\<^verbatim>\<open>entries\<close> is not exported, so it
  starts nil; the connection is whatever the caller put there), and whatever a returning
  call of the package makes of such a state. The rule \<open>range_order\<close> says that the
  order of a Go map is not fixed.
\<close>

inductive reachable :: "driver \<Rightarrow> Map_struct \<times> event list \<Rightarrow> bool" for env :: driver where
  fresh: "reachable env (\<lparr>Database = d, entries = None\<rparr>, tr)"
| range_order: "reachable env (m, tr) \<Longrightarrow> entries m = Some es \<Longrightarrow> mset es' = mset es
     \<Longrightarrow> reachable env (m\<lparr>entries := Some es'\<rparr>, tr)"
| add: "reachable env st \<Longrightarrow> AddContext env x name query st = (err, st') \<Longrightarrow> reachable env st'"
| extend: "reachable env st \<Longrightarrow> ExtendContext env x data st = (err, st') \<Longrightarrow> reachable env st'"
| remove: "reachable env st \<Longrightarrow> Remove env name st = Returns (b, st') \<Longrightarrow> reachable env st'"
| close: "reachable env st \<Longrightarrow> Close env st = Returns (err, st') \<Longrightarrow> reachable env st'"
| batch: "reachable env (m, tr) \<Longrightarrow> BatchContext env x queries (m, tr) = (err, tr')
     \<Longrightarrow> reachable env (m, tr')"
| exec: "reachable env (m, tr) \<Longrightarrow> ExecContext env x name args (m, tr) = (res, tr')
     \<Longrightarrow> reachable env (m, tr')"
| query: "reachable env (m, tr) \<Longrightarrow> QueryContext env x name args (m, tr) = (rs, tr')
     \<Longrightarrow> reachable env (m, tr')"
| query_row: "reachable env (m, tr) \<Longrightarrow> QueryRowContext env x name args (m, tr) = (rw, tr')
     \<Longrightarrow> reachable env (m, tr')"

text \<open>
  What every such state satisfies: the map holds a key once, and it is nil as long as
  the connection is nil.
\<close>

definition well_formed :: "Map_struct \<Rightarrow> bool" where
  "well_formed m = ((Database m = None \<longrightarrow> entries m = None) \<and> distinct (map fst (made m)))"

text \<open>
  For \<open>Batch\<close>: what a run over the statements \<open>qs\<close> writes to the log when nothing
  stops it, and the condition that nothing stops it (no poll finds the context done, no
  statement is refused), each answer taken at the log as it then stands.
\<close>

fun ran :: "ctx \<Rightarrow> db \<Rightarrow> string list \<Rightarrow> event list" where
  "ran x d [] = []"
| "ran x d (q # rest) = CtxPoll x # DbExec d x q # ran x d rest"

fun all_ok :: "driver \<Rightarrow> ctx \<Rightarrow> db \<Rightarrow> string list \<Rightarrow> event list \<Rightarrow> bool" where
  "all_ok env x d [] tr = True"
| "all_ok env x d (q # rest) tr =
     (poll env tr x = None \<and> db_exec env (tr @ [CtxPoll x]) d x q = None
      \<and> all_ok env x d rest (tr @ [CtxPoll x, DbExec d x q]))"

text \<open>
  \<open>Extend\<close> as the specification words it, to compare with \<open>ExtendContext\<close> above:
  for each pair in turn, poll the context, then \<open>AddContext\<close>; stop at the first error.
\<close>

fun Extend_by_Add ::
  "driver \<Rightarrow> ctx \<Rightarrow> (string \<times> string) list \<Rightarrow> Map_struct \<times> event list
     \<Rightarrow> error option \<times> Map_struct \<times> event list"
where
  "Extend_by_Add env x [] st = (None, st)"
| "Extend_by_Add env x ((k, v) # rest) st =
     (case poll env (snd st) x of
        Some e \<Rightarrow> (Some e, fst st, snd st @ [CtxPoll x])
      | None \<Rightarrow>
          (case AddContext env x k v (fst st, snd st @ [CtxPoll x]) of
             (None, st') \<Rightarrow> Extend_by_Add env x rest st'
           | (Some e, st') \<Rightarrow> (Some e, st')))"

text \<open>What a run of \<open>Extend\<close> over the pairs \<open>kvs\<close> writes to the log when nothing stops it.\<close>

fun prepared :: "ctx \<Rightarrow> db \<Rightarrow> (string \<times> string) list \<Rightarrow> event list" where
  "prepared x d [] = []"
| "prepared x d ((k, v) # rest) = CtxPoll x # DbPrepare d x v # prepared x d rest"

text \<open>
  For \<open>Close\<close>: the handles that are not nil, in the order of the map; the log of
  closing them; the map with every handle set to nil; and the condition that each of
  them closes without error, each answer taken at the log as it then stands.
\<close>

fun handles :: "entry_list \<Rightarrow> stmt list" where
  "handles [] = []"
| "handles ((k, None) # rest) = handles rest"
| "handles ((k, Some s) # rest) = s # handles rest"

definition closed_log :: "entry_list \<Rightarrow> event list" where
  "closed_log es = map StmtClose (handles es)"

definition nulled :: "entry_list \<Rightarrow> entry_list" where
  "nulled es = map (\<lambda>(k, v). (k, None)) es"

fun closes_ok :: "driver \<Rightarrow> entry_list \<Rightarrow> event list \<Rightarrow> bool" where
  "closes_ok env [] tr = True"
| "closes_ok env ((k, None) # rest) tr = closes_ok env rest tr"
| "closes_ok env ((k, Some s) # rest) tr =
     (stmt_close env tr s = None \<and> closes_ok env rest (tr @ [StmtClose s]))"

text \<open>
  The keys whose handle is nil, in the order of the map; and the states that are reached
  without a call of \<open>Close\<close> (the rules of \<open>reachable\<close> but for \<open>close\<close>).
\<close>

definition nil_keys :: "Map_struct \<Rightarrow> string list" where
  "nil_keys m = map fst (filter (\<lambda>kv. snd kv = None) (made m))"

inductive reachable_unclosed :: "driver \<Rightarrow> Map_struct \<times> event list \<Rightarrow> bool"
  for env :: driver where
  fresh: "reachable_unclosed env (\<lparr>Database = d, entries = None\<rparr>, tr)"
| range_order: "reachable_unclosed env (m, tr) \<Longrightarrow> entries m = Some es \<Longrightarrow> mset es' = mset es
     \<Longrightarrow> reachable_unclosed env (m\<lparr>entries := Some es'\<rparr>, tr)"
| add: "reachable_unclosed env st \<Longrightarrow> AddContext env x name query st = (err, st')
     \<Longrightarrow> reachable_unclosed env st'"
| extend: "reachable_unclosed env st \<Longrightarrow> ExtendContext env x data st = (err, st')
     \<Longrightarrow> reachable_unclosed env st'"
| remove: "reachable_unclosed env st \<Longrightarrow> Remove env name st = Returns (b, st')
     \<Longrightarrow> reachable_unclosed env st'"
| batch: "reachable_unclosed env (m, tr) \<Longrightarrow> BatchContext env x queries (m, tr) = (err, tr')
     \<Longrightarrow> reachable_unclosed env (m, tr')"
| exec: "reachable_unclosed env (m, tr) \<Longrightarrow> ExecContext env x name args (m, tr) = (res, tr')
     \<Longrightarrow> reachable_unclosed env (m, tr')"
| query: "reachable_unclosed env (m, tr) \<Longrightarrow> QueryContext env x name args (m, tr) = (rs, tr')
     \<Longrightarrow> reachable_unclosed env (m, tr')"
| query_row: "reachable_unclosed env (m, tr) \<Longrightarrow> QueryRowContext env x name args (m, tr) = (rw, tr')
     \<Longrightarrow> reachable_unclosed env (m, tr')"

text \<open>
  A driver to run the package on: the statements in \<open>bad_sql\<close> are refused, the
  handles in \<open>bad_stmts\<close> fail to close the first time it is tried, the connection closes with \<open>db_err\<close>, a
  context is done once the log has \<open>cancel_at\<close> entries, and a prepared statement gets
  the length of the log as its handle.
\<close>

definition test_driver :: "stmt list \<Rightarrow> string list \<Rightarrow> error option \<Rightarrow> nat \<Rightarrow> driver" where
  "test_driver bad_stmts bad_sql db_err cancel_at =
     \<lparr>ctx_done = (\<lambda>tr c. if cancel_at \<le> length tr then Some (Foreign ''context canceled'') else None),
      db_prepare = (\<lambda>tr d x q. if q \<in> set bad_sql then Inl (Foreign ''syntax error'') else Inr (length tr)),
      db_exec = (\<lambda>tr d x q. if q \<in> set bad_sql then Some (Foreign ''syntax error'') else None),
      db_close = (\<lambda>tr d. db_err),
      stmt_close = (\<lambda>tr s. if s \<in> set bad_stmts \<and> StmtClose s \<notin> set tr
                          then Some (Foreign ''close failed'') else None),
      stmt_exec = (\<lambda>tr s x as. (Some s, None)),
      stmt_query = (\<lambda>tr s x as. (Some s, None)),
      stmt_query_row = (\<lambda>tr s x as. s)\<rparr>"

section \<open>Properties\<close>

subsection \<open>Invariants of the reachable states\<close>

lemma Close_loop_keys:
  "Close_loop env es cur tr = (err, cur', tr') \<Longrightarrow> distinct (map fst cur)
     \<Longrightarrow> distinct (map fst cur')"
  by (induction es arbitrary: cur tr) (auto split: option.splits simp: distinct_update)

lemma Extend_loop_keys:
  "Extend_loop env x d kvs cur tr = (err, cur', tr') \<Longrightarrow> distinct (map fst cur)
     \<Longrightarrow> distinct (map fst cur')"
  by (induction kvs arbitrary: cur tr) (auto split: option.splits sum.splits simp: distinct_update)

lemma well_formed_AddContext:
  "well_formed m \<Longrightarrow> AddContext env x name query (m, tr) = (err, m', tr') \<Longrightarrow> well_formed m'"
  by (auto simp: well_formed_def AddContext_def made_def Let_def distinct_update split: option.splits sum.splits prod.splits if_splits)

lemma well_formed_ExtendContext:
  "well_formed m \<Longrightarrow> ExtendContext env x data (m, tr) = (err, m', tr') \<Longrightarrow> well_formed m'"
  by (auto simp: well_formed_def ExtendContext_def made_def dest: Extend_loop_keys split: option.splits prod.splits)

lemma well_formed_Remove:
  "well_formed m \<Longrightarrow> Remove env name (m, tr) = Returns (b, m', tr') \<Longrightarrow> well_formed m'"
  by (auto simp: well_formed_def Remove_def made_def Let_def distinct_delete split: option.splits prod.splits if_splits)

lemma well_formed_Close:
  "well_formed m \<Longrightarrow> Close env (m, tr) = Returns (err, m', tr') \<Longrightarrow> well_formed m'"
  by (auto simp: well_formed_def Close_def made_def dest: Close_loop_keys split: option.splits prod.splits if_splits)

lemma reachable_well_formed: "reachable env st \<Longrightarrow> well_formed (fst st)"
proof (induction rule: reachable.induct)
  case (fresh d tr)
  show ?case by (simp add: well_formed_def made_def)
next
  case (range_order m tr es es')
  from range_order.hyps(3) have "mset (map fst es') = mset (map fst es)" by simp
  then have "distinct (map fst es') = distinct (map fst es)"
    by (rule mset_eq_imp_distinct_iff)
  with range_order show ?case by (auto simp: well_formed_def made_def)
next
  case (add st x name query err st')
  then show ?case by (cases st; cases st') (auto dest: well_formed_AddContext)
next
  case (extend st x data err st')
  then show ?case by (cases st; cases st') (auto dest: well_formed_ExtendContext)
next
  case (remove st name b st')
  then show ?case by (cases st; cases st') (auto dest: well_formed_Remove)
next
  case (close st err st')
  then show ?case by (cases st; cases st') (auto dest: well_formed_Close)
qed simp_all

lemma handle_of_SomeD:
  "handle_of m n = Some h \<Longrightarrow> \<exists>es. entries m = Some es \<and> map_of es n = Some (Some h)"
  by (auto simp: handle_of_def split: option.splits)


subsection \<open>Lookups\<close>

lemma update_absent: "k \<notin> fst ` set al \<Longrightarrow> AList.update k v al = al @ [(k, v)]"
  by (induction al) auto

lemma Contains_iff: "Contains m n \<longleftrightarrow> handle_of m n \<noteq> None"
  by (auto simp: Contains_def handle_of_def len_entries_def index_def split: option.splits)

lemma Len_made: "Len m = int (length (made m))"
  by (simp add: Len_def made_def split: option.splits)

subsection \<open>Empty inputs come before the connection check\<close>

text \<open>
  C10. \<open>Batch\<close> with an empty list of statements and \<open>Extend\<close> with a nil mapping
  return nil (no error) also when the connection is nil: the emptiness test comes before
  the test of the connection, so such a call never reports \<open>ErrInvalidDB\<close>. Nothing is
  called and the struct is as before. This holds for every connection, nil or not, and
  for the variants taking a context.
\<close>

theorem empty_input_before_connection_check:
  "Batch env [] (m\<lparr>Database := None\<rparr>, tr) = (None, tr)
   \<and> BatchContext env x [] (m\<lparr>Database := None\<rparr>, tr) = (None, tr)
   \<and> Extend env None (m\<lparr>Database := None\<rparr>, tr) = (None, m\<lparr>Database := None\<rparr>, tr)
   \<and> ExtendContext env x None (m\<lparr>Database := None\<rparr>, tr) = (None, m\<lparr>Database := None\<rparr>, tr)
   \<and> Batch env [] (m, tr) = (None, tr)
   \<and> BatchContext env x [] (m, tr) = (None, tr)
   \<and> Extend env None (m, tr) = (None, m, tr)
   \<and> ExtendContext env x None (m, tr) = (None, m, tr)"
  by (simp add: Batch_def BatchContext_def Extend_def ExtendContext_def)

subsection \<open>Adding a name that is already there\<close>

text \<open>
  C1. When the name \<open>n\<close> is mapped to a non-nil handle, \<open>AddContext\<close> (and \<open>Add\<close>)
  returns an error, makes no call at all (the log is as before, so prepare is not
  called) and leaves the struct, and with it the handle of \<open>n\<close>, as it was. The error is
  the "already exists" error whenever the connection is not nil, and so in every state
  the registry can reach: there a map that is not nil comes with a connection.
\<close>

theorem Add_duplicate_name:
  assumes "handle_of m n = Some h"
  shows "(fst (AddContext env x n q (m, tr)) \<noteq> None \<and> snd (AddContext env x n q (m, tr)) = (m, tr))
    \<and> (Database m \<noteq> None \<or> reachable env (m, tr) \<longrightarrow>
          AddContext env x n q (m, tr) = (Some (Errval None (exists_msg n)), m, tr)
          \<and> Add env n q (m, tr) = (Some (Errval None (exists_msg n)), m, tr))"
proof -
  from assms obtain es where es: "entries m = Some es" "map_of es n = Some (Some h)"
    by (blast dest: handle_of_SomeD)
  have same: "m\<lparr>entries := Some (made m)\<rparr> = m"
    using es by (simp add: made_def)
  have any: "fst (AddContext env x n q (m, tr)) \<noteq> None \<and> snd (AddContext env x n q (m, tr)) = (m, tr)"
    using es by (cases "Database m") (simp_all add: AddContext_def same index_def)
  have dup: "AddContext env y n q (m, tr) = (Some (Errval None (exists_msg n)), m, tr)"
    if "Database m \<noteq> None" for y
    using es that by (cases "Database m") (simp_all add: AddContext_def same index_def)
  have "Database m \<noteq> None" if "reachable env (m, tr)"
    using reachable_well_formed [OF that] es by (auto simp: well_formed_def)
  with any dup show ?thesis
    by (auto simp: Add_def)
qed

theorem Add_duplicate_name_witness:
  "handle_of \<lparr>Database = Some 1, entries = Some [(''a'', Some 0)]\<rparr> ''a'' = Some 0
   \<and> reachable (test_driver [] [] None 9)
         (\<lparr>Database = Some 1, entries = Some [(''a'', Some 0)]\<rparr>, [DbPrepare 1 Background ''SELECT 1''])
   \<and> Add (test_driver [] [] None 9) ''a'' ''SELECT 2''
         (\<lparr>Database = Some 1, entries = Some [(''a'', Some 0)]\<rparr>, [DbPrepare 1 Background ''SELECT 1''])
       = (Some (Errval None (exists_msg ''a'')),
          \<lparr>Database = Some 1, entries = Some [(''a'', Some 0)]\<rparr>, [DbPrepare 1 Background ''SELECT 1''])"
proof -
  let ?E = "test_driver [] [] None 9"
  let ?m = "\<lparr>Database = Some 1, entries = Some [(''a'', Some 0)]\<rparr>"
  let ?tr = "[DbPrepare 1 Background ''SELECT 1'']"
  have h: "handle_of ?m ''a'' = Some 0"
    by (simp add: handle_of_def)
  have step: "AddContext ?E Background ''a'' ''SELECT 1'' (\<lparr>Database = Some 1, entries = None\<rparr>, []) = (None, ?m, ?tr)"
    by (simp add: AddContext_def test_driver_def made_def index_def)
  have r: "reachable ?E (?m, ?tr)"
    by (rule reachable.add [OF reachable.fresh step])
  from Add_duplicate_name [OF h, of ?E Background "''SELECT 2''" ?tr] r h
  show ?thesis by simp
qed

subsection \<open>Adding a name that is not registered\<close>

lemma length_update:
  "length (AList.update k v al) = (if k \<in> fst ` set al then length al else Suc (length al))"
  by (induction al) auto

lemma map_of_update_same: "map_of (AList.update k v al) k = Some v"
  by (simp add: update_conv')

text \<open>
  C9, as the code has it. With a connection, for a name \<open>n\<close> that \<open>Contains\<close> does not
  report and a query whose prepare succeeds, \<open>AddContext\<close> returns nil, having called
  prepare once and put the new handle under \<open>n\<close>, and afterwards \<open>Contains n\<close> is true.
  \<open>Len\<close> is one more than before when \<open>n\<close> was no key of the map; it is as before when
  \<open>n\<close> was a key with a nil handle (as \<open>Close\<close> leaves it), for then the new handle
  takes the place of the nil. \<open>Add\<close> is \<open>AddContext\<close> with the background context.
\<close>

theorem Add_unregistered_name:
  assumes "Database m = Some d" and "\<not> Contains m n"
    and "db_prepare env tr d x q = Inr h"
  shows "AddContext env x n q (m, tr)
           = (None, m\<lparr>entries := Some (AList.update n (Some h) (made m))\<rparr>, tr @ [DbPrepare d x q])
    \<and> Contains (fst (snd (AddContext env x n q (m, tr)))) n
    \<and> Len (fst (snd (AddContext env x n q (m, tr))))
        = (if n \<in> fst ` set (made m) then Len m else Len m + 1)
    \<and> (x = Background \<longrightarrow> Add env n q (m, tr) = AddContext env x n q (m, tr))"
proof -
  let ?m = "m\<lparr>entries := Some (AList.update n (Some h) (made m))\<rparr>"
  from assms(2) have nh: "handle_of m n = None"
    by (simp add: Contains_iff)
  have run: "AddContext env x n q (m, tr) = (None, ?m, tr @ [DbPrepare d x q])"
    using assms(1,3) nh
    by (auto simp: AddContext_def Let_def handle_of_def index_def made_def split: option.splits)
  have "handle_of ?m n = Some h"
    by (simp add: handle_of_def map_of_update_same)
  then have c: "Contains ?m n"
    by (simp add: Contains_iff)
  have "made ?m = AList.update n (Some h) (made m)"
    by (simp add: made_def)
  then have l: "Len ?m = (if n \<in> fst ` set (made m) then Len m else Len m + 1)"
    by (simp only: Len_made length_update) simp
  from run c l show ?thesis by (simp add: Add_def)
qed

theorem Add_unregistered_name_witness:
  "\<not> Contains \<lparr>Database = Some 1, entries = Some [(''a'', None), (''b'', Some 1)]\<rparr> ''c''
   \<and> db_prepare (test_driver [] [] None 9) [] 1 Background ''SELECT 3'' = Inr 0
   \<and> Add (test_driver [] [] None 9) ''c'' ''SELECT 3''
        (\<lparr>Database = Some 1, entries = Some [(''a'', None), (''b'', Some 1)]\<rparr>, [])
      = (None, \<lparr>Database = Some 1, entries = Some [(''a'', None), (''b'', Some 1), (''c'', Some 0)]\<rparr>,
         [DbPrepare 1 Background ''SELECT 3''])
   \<and> Contains \<lparr>Database = Some 1, entries = Some [(''a'', None), (''b'', Some 1), (''c'', Some 0)]\<rparr> ''c''
   \<and> Len \<lparr>Database = Some 1, entries = Some [(''a'', None), (''b'', Some 1)]\<rparr> = 2
   \<and> Len \<lparr>Database = Some 1, entries = Some [(''a'', None), (''b'', Some 1), (''c'', Some 0)]\<rparr> = 3
   \<and> \<not> Contains \<lparr>Database = Some 1, entries = Some [(''a'', None), (''b'', Some 1)]\<rparr> ''a''
   \<and> Add (test_driver [] [] None 9) ''a'' ''SELECT 3''
        (\<lparr>Database = Some 1, entries = Some [(''a'', None), (''b'', Some 1)]\<rparr>, [])
      = (None, \<lparr>Database = Some 1, entries = Some [(''a'', Some 0), (''b'', Some 1)]\<rparr>,
         [DbPrepare 1 Background ''SELECT 3''])
   \<and> Contains \<lparr>Database = Some 1, entries = Some [(''a'', Some 0), (''b'', Some 1)]\<rparr> ''a''
   \<and> Len \<lparr>Database = Some 1, entries = Some [(''a'', Some 0), (''b'', Some 1)]\<rparr> = 2"
proof -
  let ?E = "test_driver [] [] None 9"
  let ?m = "\<lparr>Database = Some 1, entries = Some [(''a'', None), (''b'', Some 1)]\<rparr>"
  have db: "Database ?m = Some 1" by simp
  have nc: "\<not> Contains ?m ''c''" and na: "\<not> Contains ?m ''a''"
    by (simp_all add: Contains_def len_entries_def index_def)
  have p: "db_prepare ?E [] 1 Background ''SELECT 3'' = Inr 0"
    by (simp add: test_driver_def)
  from Add_unregistered_name [OF db nc p]
  have rc: "Add ?E ''c'' ''SELECT 3'' (?m, [])
      = (None, ?m\<lparr>entries := Some [(''a'', None), (''b'', Some 1), (''c'', Some 0)]\<rparr>,
         [DbPrepare 1 Background ''SELECT 3''])
    \<and> Contains (?m\<lparr>entries := Some [(''a'', None), (''b'', Some 1), (''c'', Some 0)]\<rparr>) ''c''
    \<and> Len (?m\<lparr>entries := Some [(''a'', None), (''b'', Some 1), (''c'', Some 0)]\<rparr>) = Len ?m + 1"
    by (auto simp: made_def)
  from Add_unregistered_name [OF db na p]
  have ra: "Add ?E ''a'' ''SELECT 3'' (?m, [])
      = (None, ?m\<lparr>entries := Some [(''a'', Some 0), (''b'', Some 1)]\<rparr>,
         [DbPrepare 1 Background ''SELECT 3''])
    \<and> Contains (?m\<lparr>entries := Some [(''a'', Some 0), (''b'', Some 1)]\<rparr>) ''a''
    \<and> Len (?m\<lparr>entries := Some [(''a'', Some 0), (''b'', Some 1)]\<rparr>) = Len ?m"
    by (auto simp: made_def)
  have l: "Len ?m = 2" by (simp add: Len_def)
  from nc na p rc ra l show ?thesis
    by simp
qed

text \<open>
  The specification has \<open>Len\<close> grow by one for every name not yet registered. After
  \<^verbatim>\<open>Add("a", ...)\<close>, \<^verbatim>\<open>Add("b", ...)\<close> and a \<open>Close\<close> that closes \<open>a\<close> and fails on \<open>b\<close>,
  \<open>Contains\<close> does not report \<open>a\<close>; adding \<open>a\<close> again succeeds and \<open>Len\<close> is 2 before and
  after.
\<close>

theorem Add_closed_name_counterexample:
  "reachable (test_driver [1] [] None 9)
      (\<lparr>Database = Some 1, entries = Some [(''a'', None), (''b'', Some 1)]\<rparr>,
       [DbPrepare 1 Background ''SELECT 1'', DbPrepare 1 Background ''SELECT 2'',
        StmtClose 0, StmtClose 1])
   \<and> \<not> Contains \<lparr>Database = Some 1, entries = Some [(''a'', None), (''b'', Some 1)]\<rparr> ''a''
   \<and> Len \<lparr>Database = Some 1, entries = Some [(''a'', None), (''b'', Some 1)]\<rparr> = 2
   \<and> Add (test_driver [1] [] None 9) ''a'' ''SELECT 3''
        (\<lparr>Database = Some 1, entries = Some [(''a'', None), (''b'', Some 1)]\<rparr>,
         [DbPrepare 1 Background ''SELECT 1'', DbPrepare 1 Background ''SELECT 2'',
          StmtClose 0, StmtClose 1])
      = (None, \<lparr>Database = Some 1, entries = Some [(''a'', Some 4), (''b'', Some 1)]\<rparr>,
         [DbPrepare 1 Background ''SELECT 1'', DbPrepare 1 Background ''SELECT 2'',
          StmtClose 0, StmtClose 1, DbPrepare 1 Background ''SELECT 3''])
   \<and> Contains \<lparr>Database = Some 1, entries = Some [(''a'', Some 4), (''b'', Some 1)]\<rparr> ''a''
   \<and> Len \<lparr>Database = Some 1, entries = Some [(''a'', Some 4), (''b'', Some 1)]\<rparr> = 2"
proof -
  let ?E = "test_driver [1] [] None 9"
  let ?m0 = "\<lparr>Database = Some 1, entries = None\<rparr>"
  let ?m1 = "\<lparr>Database = Some 1, entries = Some [(''a'', Some 0)]\<rparr>"
  let ?m2 = "\<lparr>Database = Some 1, entries = Some [(''a'', Some 0), (''b'', Some 1)]\<rparr>"
  let ?m3 = "\<lparr>Database = Some 1, entries = Some [(''a'', None), (''b'', Some 1)]\<rparr>"
  let ?t1 = "[DbPrepare 1 Background ''SELECT 1'']"
  let ?t2 = "[DbPrepare 1 Background ''SELECT 1'', DbPrepare 1 Background ''SELECT 2'']"
  let ?t3 = "[DbPrepare 1 Background ''SELECT 1'', DbPrepare 1 Background ''SELECT 2'',
        StmtClose 0, StmtClose 1]"
  have a: "AddContext ?E Background ''a'' ''SELECT 1'' (?m0, []) = (None, ?m1, ?t1)"
    by (simp add: AddContext_def made_def index_def test_driver_def)
  have b: "AddContext ?E Background ''b'' ''SELECT 2'' (?m1, ?t1) = (None, ?m2, ?t2)"
    by (simp add: AddContext_def made_def index_def test_driver_def)
  have c: "Close ?E (?m2, ?t2)
      = Returns (Some (Errval (Some (Foreign ''close failed'')) (close_msg ''b'')), ?m3, ?t3)"
    by (simp add: Close_def test_driver_def)
  have r: "reachable ?E (?m3, ?t3)"
    by (rule reachable.close [OF reachable.add [OF reachable.add [OF reachable.fresh a] b] c])
  have d: "Add ?E ''a'' ''SELECT 3'' (?m3, ?t3)
      = (None, \<lparr>Database = Some 1, entries = Some [(''a'', Some 4), (''b'', Some 1)]\<rparr>,
         ?t3 @ [DbPrepare 1 Background ''SELECT 3''])"
    by (simp add: Add_def AddContext_def made_def index_def test_driver_def)
  from r d show ?thesis
    by (simp add: Contains_def Len_def len_entries_def index_def)
qed

text \<open>The same for every key with a nil handle.\<close>

lemma Add_over_closed_name:
  assumes "Database m = Some d" and "entries m = Some es" and "map_of es n = Some None"
    and "db_prepare env tr d x q = Inr h"
  shows "Len (fst (snd (AddContext env x n q (m, tr)))) = Len m"
proof -
  from assms(3) have "n \<in> fst ` set es"
    by (metis domI dom_map_of_conv_image_fst)
  then have "length (AList.update n (Some h) es) = length es"
    by (induction es) auto
  with assms show ?thesis
    by (simp add: AddContext_def index_def made_def Len_def)
qed

subsection \<open>Running a name that is not there\<close>

text \<open>
  C4. With a connection, for a name that is absent or mapped to a nil handle,
  \<open>ExecContext\<close> and \<open>QueryContext\<close> (and \<open>Exec\<close>, \<open>Query\<close>) return the "does not exist"
  error and no result, and \<open>QueryRowContext\<close> (and \<open>QueryRow\<close>) returns no row and
  \<open>False\<close>; nothing is called. \<open>QueryRow\<close> has no error among its results. In every
  state and for every name, when it returns \<open>True\<close> the row it returns is not nil.
\<close>

theorem absent_name_not_found:
  "(Database m = Some d \<and> handle_of m n = None \<longrightarrow>
      ExecContext env x n args (m, tr) = ((None, Some (Errval None (missing_msg n))), tr)
    \<and> Exec env n args (m, tr) = ((None, Some (Errval None (missing_msg n))), tr)
    \<and> QueryContext env x n args (m, tr) = ((None, Some (Errval None (missing_msg n))), tr)
    \<and> Query env n args (m, tr) = ((None, Some (Errval None (missing_msg n))), tr)
    \<and> QueryRowContext env x n args (m, tr) = ((None, False), tr)
    \<and> QueryRow env n args (m, tr) = ((None, False), tr))
   \<and> (snd (fst (QueryRowContext env x n args (m, tr))) \<longrightarrow>
        fst (fst (QueryRowContext env x n args (m, tr))) \<noteq> None)
   \<and> (snd (fst (QueryRow env n args (m, tr))) \<longrightarrow> fst (fst (QueryRow env n args (m, tr))) \<noteq> None)"
proof -
  have nf: "(if \<not> snd (index m n) then None else fst (index m n)) = None"
    if "handle_of m n = None"
    using that by (auto simp: handle_of_def index_def split: option.splits)
  have absent: "Database m = Some d \<and> handle_of m n = None \<longrightarrow>
      ExecContext env x n args (m, tr) = ((None, Some (Errval None (missing_msg n))), tr)
    \<and> Exec env n args (m, tr) = ((None, Some (Errval None (missing_msg n))), tr)
    \<and> QueryContext env x n args (m, tr) = ((None, Some (Errval None (missing_msg n))), tr)
    \<and> Query env n args (m, tr) = ((None, Some (Errval None (missing_msg n))), tr)
    \<and> QueryRowContext env x n args (m, tr) = ((None, False), tr)
    \<and> QueryRow env n args (m, tr) = ((None, False), tr)"
    using nf
    by (simp add: ExecContext_def QueryContext_def QueryRowContext_def Exec_def Query_def
        QueryRow_def split_beta)
  have found: "snd (fst (QueryRowContext env y n args (m, tr))) \<longrightarrow>
        fst (fst (QueryRowContext env y n args (m, tr))) \<noteq> None" for y
    by (simp add: QueryRowContext_def split_beta split: option.splits)
  have found': "snd (fst (QueryRow env n args (m, tr))) \<longrightarrow>
        fst (fst (QueryRow env n args (m, tr))) \<noteq> None"
    unfolding QueryRow_def by (rule found)
  from absent found [of x] found' show ?thesis by blast
qed

theorem absent_name_not_found_witness:
  "Database \<lparr>Database = Some 1, entries = Some [(''a'', Some 0), (''c'', None)]\<rparr> = Some 1
   \<and> handle_of \<lparr>Database = Some 1, entries = Some [(''a'', Some 0), (''c'', None)]\<rparr> ''b'' = None
   \<and> handle_of \<lparr>Database = Some 1, entries = Some [(''a'', Some 0), (''c'', None)]\<rparr> ''c'' = None
   \<and> Exec (test_driver [] [] None 9) ''b'' [ArgInt 1]
        (\<lparr>Database = Some 1, entries = Some [(''a'', Some 0), (''c'', None)]\<rparr>, [])
      = ((None, Some (Errval None (missing_msg ''b''))), [])
   \<and> Query (test_driver [] [] None 9) ''c'' [ArgInt 1]
        (\<lparr>Database = Some 1, entries = Some [(''a'', Some 0), (''c'', None)]\<rparr>, [])
      = ((None, Some (Errval None (missing_msg ''c''))), [])
   \<and> QueryRow (test_driver [] [] None 9) ''b'' [ArgInt 1]
        (\<lparr>Database = Some 1, entries = Some [(''a'', Some 0), (''c'', None)]\<rparr>, [])
      = ((None, False), [])
   \<and> QueryRow (test_driver [] [] None 9) ''a'' [ArgInt 1]
        (\<lparr>Database = Some 1, entries = Some [(''a'', Some 0), (''c'', None)]\<rparr>, [])
      = ((Some 0, True), [StmtQueryRow 0 Background [ArgInt 1]])"
proof -
  let ?E = "test_driver [] [] None 9"
  let ?m = "\<lparr>Database = Some 1, entries = Some [(''a'', Some 0), (''c'', None)]\<rparr>"
  have a: "Database ?m = Some 1" by simp
  have b: "handle_of ?m ''b'' = None" by (simp add: handle_of_def)
  have c: "handle_of ?m ''c'' = None" by (simp add: handle_of_def)
  have f: "QueryRow ?E ''a'' [ArgInt 1] (?m, [])
      = ((Some 0, True), [StmtQueryRow 0 Background [ArgInt 1]])"
    by (simp add: QueryRow_def QueryRowContext_def len_entries_def index_def test_driver_def)
  from absent_name_not_found [of ?m 1 "''b''" ?E Background "[ArgInt 1]" "[]"]
    absent_name_not_found [of ?m 1 "''c''" ?E Background "[ArgInt 1]" "[]"]
    absent_name_not_found [of ?m 1 "''a''" ?E Background "[ArgInt 1]" "[]"]
    a b c f
  show ?thesis by simp
qed

subsection \<open>Batch\<close>

lemma Batch_loop_append:
  "all_ok env x d pre tr \<Longrightarrow>
     Batch_loop env x d (pre @ post) tr = Batch_loop env x d post (tr @ ran x d pre)"
  by (induction pre arbitrary: tr) simp_all

text \<open>
  C6. With a connection \<open>d\<close>, \<open>BatchContext\<close> (and \<open>Batch\<close>, which is \<open>BatchContext\<close>
  with the background context) polls the context and then executes, statement by
  statement in the order of the list, on the connection itself: the log gains only polls
  and \<open>DbExec d\<close> entries, no entry of a prepared statement, and the struct is not
  written. When nothing stops the run, all statements are executed and nil is returned.
  When the statement \<open>q\<close> after the prefix \<open>pre\<close> is refused with \<open>e\<close>, the result is
  \<open>e\<close> wrapped in an error whose text holds \<open>q\<close>, and the log ends with the execution
  of \<open>q\<close>: nothing of \<open>post\<close> is executed. When the poll before \<open>q\<close> finds the context
  done, its error is returned as it is and \<open>q\<close> and \<open>post\<close> are not executed. Without a
  connection and with a list that is not empty, the result is \<open>ErrInvalidDB\<close> and
  nothing is called.
\<close>

theorem Batch_in_order:
  "(Database m = Some d \<and> all_ok env x d qs tr \<longrightarrow>
      BatchContext env x qs (m, tr) = (None, tr @ ran x d qs))
   \<and> (Database m = Some d \<and> all_ok env x d pre tr \<and> poll env (tr @ ran x d pre) x = None
        \<and> db_exec env (tr @ ran x d pre @ [CtxPoll x]) d x q = Some e \<longrightarrow>
      BatchContext env x (pre @ q # post) (m, tr)
        = (Some (Errval (Some e) (batch_msg q)), tr @ ran x d pre @ [CtxPoll x, DbExec d x q]))
   \<and> (Database m = Some d \<and> all_ok env x d pre tr \<and> poll env (tr @ ran x d pre) x = Some e \<longrightarrow>
      BatchContext env x (pre @ q # post) (m, tr) = (Some e, tr @ ran x d pre @ [CtxPoll x]))
   \<and> (Database m = None \<and> qs \<noteq> [] \<longrightarrow> BatchContext env x qs (m, tr) = (Some ErrInvalidDB, tr))
   \<and> Batch env qs (m, tr) = BatchContext env Background qs (m, tr)"
proof -
  have all: "BatchContext env x qs (m, tr) = (None, tr @ ran x d qs)"
    if "Database m = Some d" "all_ok env x d qs tr"
    using that Batch_loop_append [of env x d qs tr "[]"] by (simp add: BatchContext_def)
  have fails: "BatchContext env x (pre @ q # post) (m, tr)
        = (Some (Errval (Some e) (batch_msg q)), tr @ ran x d pre @ [CtxPoll x, DbExec d x q])"
    if "Database m = Some d" "all_ok env x d pre tr" "poll env (tr @ ran x d pre) x = None"
      "db_exec env (tr @ ran x d pre @ [CtxPoll x]) d x q = Some e"
    using that by (simp add: BatchContext_def Batch_loop_append)
  have cancelled: "BatchContext env x (pre @ q # post) (m, tr) = (Some e, tr @ ran x d pre @ [CtxPoll x])"
    if "Database m = Some d" "all_ok env x d pre tr" "poll env (tr @ ran x d pre) x = Some e"
    using that by (simp add: BatchContext_def Batch_loop_append)
  have nodb: "BatchContext env x qs (m, tr) = (Some ErrInvalidDB, tr)"
    if "Database m = None" "qs \<noteq> []"
    using that by (simp add: BatchContext_def)
  from all fails cancelled nodb show ?thesis
    by (simp add: Batch_def)
qed

theorem Batch_in_order_witness:
  "Database \<lparr>Database = Some 1, entries = None\<rparr> = Some 1
   \<and> all_ok (test_driver [] [''bad''] None 2) Background 1 [''A'', ''C''] []
   \<and> Batch (test_driver [] [''bad''] None 2) [''A'', ''C''] (\<lparr>Database = Some 1, entries = None\<rparr>, [])
       = (None, [CtxPoll Background, DbExec 1 Background ''A'',
                 CtxPoll Background, DbExec 1 Background ''C''])
   \<and> db_exec (test_driver [] [''bad''] None 2)
        [CtxPoll Background, DbExec 1 Background ''A'', CtxPoll Background] 1 Background ''bad''
       = Some (Foreign ''syntax error'')
   \<and> Batch (test_driver [] [''bad''] None 2) [''A'', ''bad'', ''C'']
        (\<lparr>Database = Some 1, entries = None\<rparr>, [])
       = (Some (Errval (Some (Foreign ''syntax error'')) (batch_msg ''bad'')),
          [CtxPoll Background, DbExec 1 Background ''A'',
           CtxPoll Background, DbExec 1 Background ''bad''])
   \<and> poll (test_driver [] [''bad''] None 2) [CtxPoll (Ctx 0), DbExec 1 (Ctx 0) ''A''] (Ctx 0)
       = Some (Foreign ''context canceled'')
   \<and> BatchContext (test_driver [] [''bad''] None 2) (Ctx 0) [''A'', ''C'']
        (\<lparr>Database = Some 1, entries = None\<rparr>, [])
       = (Some (Foreign ''context canceled''),
          [CtxPoll (Ctx 0), DbExec 1 (Ctx 0) ''A'', CtxPoll (Ctx 0)])
   \<and> Batch (test_driver [] [''bad''] None 2) [''A''] (\<lparr>Database = None, entries = None\<rparr>, [])
       = (Some ErrInvalidDB, [])"
proof -
  let ?E = "test_driver [] [''bad''] None 2"
  let ?m = "\<lparr>Database = Some 1, entries = None\<rparr>"
  let ?n = "\<lparr>Database = None, entries = None\<rparr>"
  have ok2: "all_ok ?E Background 1 [''A'', ''C''] []"
    by (simp add: poll_def test_driver_def)
  have ok1: "all_ok ?E Background 1 [''A''] []"
    by (simp add: poll_def test_driver_def)
  have ok1c: "all_ok ?E (Ctx 0) 1 [''A''] []"
    by (simp add: poll_def test_driver_def)
  have bad: "db_exec ?E [CtxPoll Background, DbExec 1 Background ''A'', CtxPoll Background] 1
      Background ''bad'' = Some (Foreign ''syntax error'')"
    by (simp add: test_driver_def)
  have live: "poll ?E [CtxPoll Background, DbExec 1 Background ''A''] Background = None"
    by (simp add: poll_def)
  have gone: "poll ?E [CtxPoll (Ctx 0), DbExec 1 (Ctx 0) ''A''] (Ctx 0) = Some (Foreign ''context canceled'')"
    by (simp add: poll_def test_driver_def)
  from Batch_in_order [of ?m 1 ?E Background "[''A'', ''C'']" "[]"] ok2
  have r1: "Batch ?E [''A'', ''C''] (?m, [])
       = (None, [CtxPoll Background, DbExec 1 Background ''A'',
                 CtxPoll Background, DbExec 1 Background ''C''])"
    by simp
  from Batch_in_order [of ?m 1 ?E Background "[''A'', ''bad'', ''C'']" "[]" "[''A'']" "''bad''"
      "Foreign ''syntax error''" "[''C'']"] ok1 bad live
  have r2: "Batch ?E [''A'', ''bad'', ''C''] (?m, [])
       = (Some (Errval (Some (Foreign ''syntax error'')) (batch_msg ''bad'')),
          [CtxPoll Background, DbExec 1 Background ''A'',
           CtxPoll Background, DbExec 1 Background ''bad''])"
    by simp
  from Batch_in_order [of ?m 1 ?E "Ctx 0" "[]" "[]" "[''A'']" "''C''"
      "Foreign ''context canceled''" "[]"] ok1c gone
  have r3: "BatchContext ?E (Ctx 0) [''A'', ''C''] (?m, [])
       = (Some (Foreign ''context canceled''),
          [CtxPoll (Ctx 0), DbExec 1 (Ctx 0) ''A'', CtxPoll (Ctx 0)])"
    by simp
  from Batch_in_order [of ?n 1 ?E Background "[''A'']" "[]"]
  have r4: "Batch ?E [''A''] (?n, []) = (Some ErrInvalidDB, [])"
    by simp
  from ok2 bad gone r1 r2 r3 r4 show ?thesis by simp
qed

text \<open>Every run is one of the three: nothing stops it, or there is a first stop.\<close>

lemma Batch_loop_cases:
  "all_ok env x d qs tr
   \<or> (\<exists>pre q post. qs = pre @ q # post \<and> all_ok env x d pre tr
        \<and> (poll env (tr @ ran x d pre) x \<noteq> None
            \<or> db_exec env (tr @ ran x d pre @ [CtxPoll x]) d x q \<noteq> None))"
proof (induction qs arbitrary: tr)
  case Nil
  show ?case by simp
next
  case (Cons q0 rest)
  show ?case
  proof (cases "poll env tr x = None \<and> db_exec env (tr @ [CtxPoll x]) d x q0 = None")
    case False
    then have "q0 # rest = [] @ q0 # rest \<and> all_ok env x d [] tr
        \<and> (poll env (tr @ ran x d []) x \<noteq> None
            \<or> db_exec env (tr @ ran x d [] @ [CtxPoll x]) d x q0 \<noteq> None)"
      by auto
    then show ?thesis by blast
  next
    case True
    let ?tr = "tr @ [CtxPoll x, DbExec d x q0]"
    from Cons.IH [of ?tr] show ?thesis
    proof
      assume "all_ok env x d rest ?tr"
      with True show ?thesis by simp
    next
      assume "\<exists>pre q post. rest = pre @ q # post \<and> all_ok env x d pre ?tr
        \<and> (poll env (?tr @ ran x d pre) x \<noteq> None
            \<or> db_exec env (?tr @ ran x d pre @ [CtxPoll x]) d x q \<noteq> None)"
      then obtain pre q post where p: "rest = pre @ q # post" "all_ok env x d pre ?tr"
        "poll env (?tr @ ran x d pre) x \<noteq> None
            \<or> db_exec env (?tr @ ran x d pre @ [CtxPoll x]) d x q \<noteq> None"
        by blast
      with True have "q0 # rest = (q0 # pre) @ q # post \<and> all_ok env x d (q0 # pre) tr
        \<and> (poll env (tr @ ran x d (q0 # pre)) x \<noteq> None
            \<or> db_exec env (tr @ ran x d (q0 # pre) @ [CtxPoll x]) d x q \<noteq> None)"
        by simp
      then show ?thesis by blast
    qed
  qed
qed

subsection \<open>Extend\<close>

lemma entries_same: "entries m = Some cur \<Longrightarrow> m\<lparr>entries := Some cur\<rparr> = m"
  by simp

lemma AddContext_step:
  assumes "Database m = Some d" and "entries m = Some cur"
  shows "AddContext env x k v (m, tr) =
     (case map_of cur k of
        Some (Some s) \<Rightarrow> (Some (Errval None (exists_msg k)), m, tr)
      | _ \<Rightarrow>
          (case db_prepare env tr d x v of
             Inl e \<Rightarrow> (Some (Errval (Some e) (adding_msg k)), m, tr @ [DbPrepare d x v])
           | Inr h \<Rightarrow> (None, m\<lparr>entries := Some (AList.update k (Some h) cur)\<rparr>, tr @ [DbPrepare d x v])))"
  using assms
  by (simp add: AddContext_def made_def index_def entries_same split: option.splits sum.splits)

lemma Extend_loop_by_Add:
  "Database m = Some d \<Longrightarrow> entries m = Some cur \<Longrightarrow>
     Extend_by_Add env x kvs (m, tr) =
       (case Extend_loop env x d kvs cur tr of (err, cur', tr') \<Rightarrow> (err, m\<lparr>entries := Some cur'\<rparr>, tr'))"
proof (induction kvs arbitrary: m cur tr)
  case Nil
  then show ?case by simp
next
  case (Cons kv rest)
  obtain k v where kv: "kv = (k, v)" by (cases kv)
  show ?case
  proof (cases "poll env tr x")
    case (Some e)
    with Cons.prems kv show ?thesis by simp
  next
    case None
    note live = this
    show ?thesis
    proof (cases "\<exists>s. map_of cur k = Some (Some s)")
      case True
      with Cons.prems kv live show ?thesis
        by (auto simp: AddContext_step)
    next
      case False
      then have nd: "(case map_of cur k of Some (Some s) \<Rightarrow> a s | _ \<Rightarrow> b) = b" for a and b :: 'z
        by (auto split: option.splits)
      show ?thesis
      proof (cases "db_prepare env (tr @ [CtxPoll x]) d x v")
        case (Inl e)
        with Cons.prems kv live show ?thesis
          by (simp add: AddContext_step nd)
      next
        case (Inr h)
        let ?m = "m\<lparr>entries := Some (AList.update k (Some h) cur)\<rparr>"
        have "Extend_by_Add env x rest (?m, tr @ [CtxPoll x, DbPrepare d x v]) =
          (case Extend_loop env x d rest (AList.update k (Some h) cur) (tr @ [CtxPoll x, DbPrepare d x v])
           of (err, cur', tr') \<Rightarrow> (err, ?m\<lparr>entries := Some cur'\<rparr>, tr'))"
          using Cons.prems by (intro Cons.IH) simp_all
        with Cons.prems kv live Inr show ?thesis
          by (simp add: AddContext_step nd)
      qed
    qed
  qed
qed

lemma Extend_loop_append:
  "Extend_loop env x d (pre @ post) cur tr =
     (case Extend_loop env x d pre cur tr of
        (None, cur', tr') \<Rightarrow> Extend_loop env x d post cur' tr'
      | (Some e, r) \<Rightarrow> (Some e, r))"
  by (induction pre arbitrary: cur tr) (auto split: option.splits sum.splits)

lemma Extend_loop_single_fail:
  "Extend_loop env x d [(k, v)] cur tr = (Some e, cur', tr') \<Longrightarrow> cur' = cur"
  by (auto split: option.splits sum.splits)

lemma Extend_loop_first_fail:
  "Extend_loop env x d ((k, v) # post) cur tr =
     (case Extend_loop env x d [(k, v)] cur tr of
        (None, cur', tr') \<Rightarrow> Extend_loop env x d post cur' tr'
      | (Some e, r) \<Rightarrow> (Some e, r))"
  using Extend_loop_append [of env x d "[(k, v)]" post cur tr] by simp

lemma Extend_loop_log:
  "Extend_loop env x d kvs cur tr = (err, cur', tr') \<Longrightarrow>
     \<exists>n\<le>length kvs. tr' = tr @ prepared x d (take n kvs)
        \<or> tr' = tr @ prepared x d (take n kvs) @ [CtxPoll x]"
proof (induction kvs arbitrary: cur tr)
  case Nil
  then show ?case by simp
next
  case (Cons kv rest)
  obtain k v where kv: "kv = (k, v)" by (cases kv)
  show ?case
  proof (cases "\<exists>h. poll env tr x = None \<and> (\<forall>s. map_of cur k \<noteq> Some (Some s))
      \<and> db_prepare env (tr @ [CtxPoll x]) d x v = Inr h")
    case True
    then obtain h where h: "poll env tr x = None" "\<forall>s. map_of cur k \<noteq> Some (Some s)"
      "db_prepare env (tr @ [CtxPoll x]) d x v = Inr h" by blast
    from h(2) have nd: "(case map_of cur k of Some (Some s) \<Rightarrow> a s | _ \<Rightarrow> b) = b" for a and b :: 'z
      by (auto split: option.splits)
    from Cons.prems kv h have "Extend_loop env x d rest (AList.update k (Some h) cur)
        (tr @ [CtxPoll x, DbPrepare d x v]) = (err, cur', tr')"
      by (simp add: nd)
    from Cons.IH [OF this] obtain n where n: "n \<le> length rest"
      "tr' = (tr @ [CtxPoll x, DbPrepare d x v]) @ prepared x d (take n rest)
        \<or> tr' = (tr @ [CtxPoll x, DbPrepare d x v]) @ prepared x d (take n rest) @ [CtxPoll x]"
      by blast
    then have "Suc n \<le> length (kv # rest) \<and> (tr' = tr @ prepared x d (take (Suc n) (kv # rest))
        \<or> tr' = tr @ prepared x d (take (Suc n) (kv # rest)) @ [CtxPoll x])"
      using kv by simp
    then show ?thesis by blast
  next
    case False
    with Cons.prems kv have "tr' = tr @ [CtxPoll x] \<or> tr' = tr @ [CtxPoll x, DbPrepare d x v]"
      by (auto split: option.splits sum.splits)
    then have "(0 \<le> length (kv # rest) \<and> (tr' = tr @ prepared x d (take 0 (kv # rest))
        \<or> tr' = tr @ prepared x d (take 0 (kv # rest)) @ [CtxPoll x]))
      \<or> (Suc 0 \<le> length (kv # rest) \<and> (tr' = tr @ prepared x d (take (Suc 0) (kv # rest))
        \<or> tr' = tr @ prepared x d (take (Suc 0) (kv # rest)) @ [CtxPoll x]))"
      using kv by auto
    then show ?thesis by blast
  qed
qed

lemma ExtendContext_kept:
  assumes "Database m = Some d" and "ExtendContext env x (Some kvs) (m, tr) = (r, m1, tr1)"
  shows "Database m1 = Some d" and "entries m1 = Some (made m1)"
  using assms by (auto simp: ExtendContext_def made_def split: prod.splits)

lemma Extend_next:
  assumes db: "Database m = Some d"
    and pre: "ExtendContext env x (Some pre) (m, tr) = (None, m1, tr1)"
  shows "ExtendContext env x (Some (pre @ rest)) (m, tr) = ExtendContext env x (Some rest) (m1, tr1)"
proof -
  obtain r1 c1 t1 where l1: "Extend_loop env x d pre (made m) tr = (r1, c1, t1)"
    by (cases "Extend_loop env x d pre (made m) tr")
  with db pre have r1: "r1 = None" "m1 = m\<lparr>entries := Some c1\<rparr>" "t1 = tr1"
    by (simp_all add: ExtendContext_def)
  then have m1: "Database m1 = Some d" "made m1 = c1"
    using db by (simp_all add: made_def)
  show ?thesis
    using db l1 r1 m1
    by (simp add: ExtendContext_def Extend_loop_append del: Extend_loop.simps)
qed

lemma Extend_step:
  assumes db: "Database m1 = Some d" and es: "entries m1 = Some (made m1)"
  shows "ExtendContext env x (Some ((k, v) # post)) (m1, tr1) =
     (case poll env tr1 x of
        Some e \<Rightarrow> (Some e, m1, tr1 @ [CtxPoll x])
      | None \<Rightarrow>
          (case handle_of m1 k of
             Some s \<Rightarrow> (Some (Errval None (exists_msg k)), m1, tr1 @ [CtxPoll x])
           | None \<Rightarrow>
               (case db_prepare env (tr1 @ [CtxPoll x]) d x v of
                  Inl e \<Rightarrow>
                    (Some (Errval (Some e) (adding_msg k)), m1, tr1 @ [CtxPoll x, DbPrepare d x v])
                | Inr h \<Rightarrow>
                    ExtendContext env x (Some post)
                      (m1\<lparr>entries := Some (AList.update k (Some h) (made m1))\<rparr>,
                       tr1 @ [CtxPoll x, DbPrepare d x v]))))"
proof -
  have same: "m1\<lparr>entries := Some (made m1)\<rparr> = m1"
    using es by simp
  have h: "handle_of m1 k = (case map_of (made m1) k of Some (Some s) \<Rightarrow> Some s | _ \<Rightarrow> None)"
    using es by (simp add: handle_of_def made_def split: option.splits)
  show ?thesis
    using db same
    by (simp add: ExtendContext_def h made_def split: option.splits sum.splits prod.splits)
qed

text \<open>
  C5. With a connection, \<open>ExtendContext\<close> (and \<open>Extend\<close>, which is \<open>ExtendContext\<close> with
  the background context) does what polling the context and then \<open>AddContext\<close> does,
  pair after pair, up to the first error. After the pairs \<open>pre\<close> have gone in, the next
  pair \<open>(k, v)\<close> is treated so: the context is polled once; when it is done (the driver
  says so for a context \<open>Ctx c\<close>; the background context never is), its error is
  returned as it is; otherwise, when \<open>k\<close> has a handle that is not nil, the "already
  exists" error is returned without a prepare; otherwise \<open>v\<close> is prepared, and a refusal
  is returned wrapped in an error whose text holds \<open>k\<close>, while on success the handle is
  stored under \<open>k\<close> and the run goes on. In each of the three stops the struct is the
  one after \<open>pre\<close> (what was added stays, so the call is not all-or-nothing) and
  nothing of \<open>post\<close> is tried. In the log each prepare comes right after one poll of the
  context, and a poll is followed by at most one prepare.
\<close>

theorem Extend_applies_Add:
  "(Database m = Some d \<longrightarrow>
      ExtendContext env x (Some kvs) (m, tr)
        = Extend_by_Add env x kvs (m\<lparr>entries := Some (made m)\<rparr>, tr))
   \<and> (Database m = Some d \<and> ExtendContext env x (Some pre) (m, tr) = (None, m1, tr1)
        \<and> ExtendContext env x (Some [(k, v)]) (m1, tr1) = (Some e, m2, tr2) \<longrightarrow>
      ExtendContext env x (Some (pre @ (k, v) # post)) (m, tr) = (Some e, m1, tr2))
   \<and> (Database m = Some d \<and> ExtendContext env x (Some kvs) (m, tr) = (err, m', tr') \<longrightarrow>
        (\<exists>n\<le>length kvs. tr' = tr @ prepared x d (take n kvs)
            \<or> tr' = tr @ prepared x d (take n kvs) @ [CtxPoll x]))
   \<and> Extend env data (m, tr) = ExtendContext env Background data (m, tr)
   \<and> (Database m = Some d \<and> ExtendContext env (Ctx c) (Some pre) (m, tr) = (None, m1, tr1)
        \<and> ctx_done env tr1 c = Some e \<longrightarrow>
      ExtendContext env (Ctx c) (Some (pre @ (k, v) # post)) (m, tr)
        = (Some e, m1, tr1 @ [CtxPoll (Ctx c)]))
   \<and> (Database m = Some d \<and> ExtendContext env x (Some pre) (m, tr) = (None, m1, tr1)
        \<and> poll env tr1 x = None \<and> handle_of m1 k = Some s \<longrightarrow>
      ExtendContext env x (Some (pre @ (k, v) # post)) (m, tr)
        = (Some (Errval None (exists_msg k)), m1, tr1 @ [CtxPoll x]))
   \<and> (Database m = Some d \<and> ExtendContext env x (Some pre) (m, tr) = (None, m1, tr1)
        \<and> poll env tr1 x = None \<and> handle_of m1 k = None
        \<and> db_prepare env (tr1 @ [CtxPoll x]) d x v = Inl e \<longrightarrow>
      ExtendContext env x (Some (pre @ (k, v) # post)) (m, tr)
        = (Some (Errval (Some e) (adding_msg k)), m1, tr1 @ [CtxPoll x, DbPrepare d x v]))
   \<and> (Database m = Some d \<and> ExtendContext env x (Some pre) (m, tr) = (None, m1, tr1)
        \<and> poll env tr1 x = None \<and> handle_of m1 k = None
        \<and> db_prepare env (tr1 @ [CtxPoll x]) d x v = Inr h \<longrightarrow>
      ExtendContext env x (Some (pre @ [(k, v)])) (m, tr)
        = (None, m1\<lparr>entries := Some (AList.update k (Some h) (made m1))\<rparr>,
           tr1 @ [CtxPoll x, DbPrepare d x v]))
   \<and> poll env tr Background = None"
proof -
  have by_add: "ExtendContext env x (Some kvs) (m, tr)
        = Extend_by_Add env x kvs (m\<lparr>entries := Some (made m)\<rparr>, tr)"
    if db: "Database m = Some d"
  proof -
    have "Extend_by_Add env x kvs (m\<lparr>entries := Some (made m)\<rparr>, tr) =
       (case Extend_loop env x d kvs (made m) tr of
          (err, cur', tr') \<Rightarrow> (err, m\<lparr>entries := Some (made m)\<rparr>\<lparr>entries := Some cur'\<rparr>, tr'))"
      using db by (intro Extend_loop_by_Add) simp_all
    with db show ?thesis by (simp add: ExtendContext_def)
  qed
  have stops: "ExtendContext env x (Some (pre @ (k, v) # post)) (m, tr) = (Some e, m1, tr2)"
    if db: "Database m = Some d"
      and pre: "ExtendContext env x (Some pre) (m, tr) = (None, m1, tr1)"
      and one: "ExtendContext env x (Some [(k, v)]) (m1, tr1) = (Some e, m2, tr2)"
  proof -
    obtain r1 c1 t1 where l1: "Extend_loop env x d pre (made m) tr = (r1, c1, t1)"
      by (cases "Extend_loop env x d pre (made m) tr")
    with db pre have r1: "r1 = None" "m1 = m\<lparr>entries := Some c1\<rparr>" "t1 = tr1"
      by (simp_all add: ExtendContext_def)
    then have m1: "Database m1 = Some d" "made m1 = c1"
      using db by (simp_all add: made_def)
    obtain r2 c2 t2 where l2: "Extend_loop env x d [(k, v)] c1 tr1 = (r2, c2, t2)"
      by (cases "Extend_loop env x d [(k, v)] c1 tr1")
    with m1 one have r2: "r2 = Some e" "t2 = tr2"
      by (simp_all add: ExtendContext_def)
    from l2 r2 have "Extend_loop env x d [(k, v)] c1 tr1 = (Some e, c2, tr2)"
      by (simp del: Extend_loop.simps)
    then have c2: "c2 = c1"
      by (rule Extend_loop_single_fail)
    have "Extend_loop env x d (pre @ (k, v) # post) (made m) tr = (Some e, c1, tr2)"
      using l1 l2 r1 r2 c2
      by (simp add: Extend_loop_append Extend_loop_first_fail [of env x d k v post]
          del: Extend_loop.simps)
    with db r1 show ?thesis
      by (simp add: ExtendContext_def)
  qed
  have log: "\<exists>n\<le>length kvs. tr' = tr @ prepared x d (take n kvs)
            \<or> tr' = tr @ prepared x d (take n kvs) @ [CtxPoll x]"
    if db: "Database m = Some d" and run: "ExtendContext env x (Some kvs) (m, tr) = (err, m', tr')"
  proof -
    obtain r c t where l: "Extend_loop env x d kvs (made m) tr = (r, c, t)"
      by (cases "Extend_loop env x d kvs (made m) tr")
    with db run have "t = tr'" by (simp add: ExtendContext_def)
    with Extend_loop_log [OF l] show ?thesis by simp
  qed
  have bg: "Extend env data (m, tr) = ExtendContext env Background data (m, tr)"
    by (simp add: Extend_def)
  have step: "ExtendContext env y (Some (pre @ (k, v) # rest)) (m, tr) =
     (case poll env tr1 y of
        Some e \<Rightarrow> (Some e, m1, tr1 @ [CtxPoll y])
      | None \<Rightarrow>
          (case handle_of m1 k of
             Some s \<Rightarrow> (Some (Errval None (exists_msg k)), m1, tr1 @ [CtxPoll y])
           | None \<Rightarrow>
               (case db_prepare env (tr1 @ [CtxPoll y]) d y v of
                  Inl e \<Rightarrow>
                    (Some (Errval (Some e) (adding_msg k)), m1, tr1 @ [CtxPoll y, DbPrepare d y v])
                | Inr h \<Rightarrow>
                    ExtendContext env y (Some rest)
                      (m1\<lparr>entries := Some (AList.update k (Some h) (made m1))\<rparr>,
                       tr1 @ [CtxPoll y, DbPrepare d y v]))))"
    if db: "Database m = Some d" and pre: "ExtendContext env y (Some pre) (m, tr) = (None, m1, tr1)"
    for y rest
    using Extend_next [OF db pre, of "(k, v) # rest"]
      Extend_step [OF ExtendContext_kept [OF db pre], of env y k v rest tr1]
    by simp
  have cancelled: "ExtendContext env (Ctx c) (Some (pre @ (k, v) # post)) (m, tr)
        = (Some e, m1, tr1 @ [CtxPoll (Ctx c)])"
    if "Database m = Some d" "ExtendContext env (Ctx c) (Some pre) (m, tr) = (None, m1, tr1)"
      "ctx_done env tr1 c = Some e"
    using step [OF that(1,2), of post] that(3) by (simp add: poll_def)
  have duplicate: "ExtendContext env x (Some (pre @ (k, v) # post)) (m, tr)
        = (Some (Errval None (exists_msg k)), m1, tr1 @ [CtxPoll x])"
    if "Database m = Some d" "ExtendContext env x (Some pre) (m, tr) = (None, m1, tr1)"
      "poll env tr1 x = None" "handle_of m1 k = Some s"
    using step [OF that(1,2), of post] that(3,4) by simp
  have refused: "ExtendContext env x (Some (pre @ (k, v) # post)) (m, tr)
        = (Some (Errval (Some e) (adding_msg k)), m1, tr1 @ [CtxPoll x, DbPrepare d x v])"
    if "Database m = Some d" "ExtendContext env x (Some pre) (m, tr) = (None, m1, tr1)"
      "poll env tr1 x = None" "handle_of m1 k = None"
      "db_prepare env (tr1 @ [CtxPoll x]) d x v = Inl e"
    using step [OF that(1,2), of post] that(3,4,5) by simp
  have added: "ExtendContext env x (Some (pre @ [(k, v)])) (m, tr)
        = (None, m1\<lparr>entries := Some (AList.update k (Some h) (made m1))\<rparr>,
           tr1 @ [CtxPoll x, DbPrepare d x v])"
    if "Database m = Some d" "ExtendContext env x (Some pre) (m, tr) = (None, m1, tr1)"
      "poll env tr1 x = None" "handle_of m1 k = None"
      "db_prepare env (tr1 @ [CtxPoll x]) d x v = Inr h"
  proof -
    have "Database m1 = Some d"
      using ExtendContext_kept(1) [OF that(1,2)] .
    then have "ExtendContext env x (Some [])
        (m1\<lparr>entries := Some (AList.update k (Some h) (made m1))\<rparr>, tr1 @ [CtxPoll x, DbPrepare d x v])
      = (None, m1\<lparr>entries := Some (AList.update k (Some h) (made m1))\<rparr>,
           tr1 @ [CtxPoll x, DbPrepare d x v])"
      by (simp add: ExtendContext_def made_def)
    with step [OF that(1,2), of "[]"] that(3,4,5) show ?thesis by simp
  qed
  have never: "poll env tr Background = None"
    by (simp add: poll_def)
  from by_add stops log bg cancelled duplicate refused added never show ?thesis
    by blast
qed



theorem Extend_applies_Add_witness:
  "ExtendContext (test_driver [] [''bad''] None 2) (Ctx 0) (Some [(''a'', ''A'')])
        (\<lparr>Database = Some 1, entries = None\<rparr>, [])
       = (None, \<lparr>Database = Some 1, entries = Some [(''a'', Some 1)]\<rparr>,
          [CtxPoll (Ctx 0), DbPrepare 1 (Ctx 0) ''A''])
   \<and> ctx_done (test_driver [] [''bad''] None 2) [CtxPoll (Ctx 0), DbPrepare 1 (Ctx 0) ''A''] 0
       = Some (Foreign ''context canceled'')
   \<and> ExtendContext (test_driver [] [''bad''] None 2) (Ctx 0) (Some [(''a'', ''A''), (''c'', ''C'')])
        (\<lparr>Database = Some 1, entries = None\<rparr>, [])
       = (Some (Foreign ''context canceled''),
          \<lparr>Database = Some 1, entries = Some [(''a'', Some 1)]\<rparr>,
          [CtxPoll (Ctx 0), DbPrepare 1 (Ctx 0) ''A'', CtxPoll (Ctx 0)])
   \<and> ExtendContext (test_driver [] [''bad''] None 9) (Ctx 0)
        (Some [(''a'', ''A''), (''b'', ''bad''), (''c'', ''C'')])
        (\<lparr>Database = Some 1, entries = None\<rparr>, [])
       = (Some (Errval (Some (Foreign ''syntax error'')) (adding_msg ''b'')),
          \<lparr>Database = Some 1, entries = Some [(''a'', Some 1)]\<rparr>,
          [CtxPoll (Ctx 0), DbPrepare 1 (Ctx 0) ''A'', CtxPoll (Ctx 0), DbPrepare 1 (Ctx 0) ''bad''])
   \<and> Extend_by_Add (test_driver [] [''bad''] None 9) (Ctx 0)
        [(''a'', ''A''), (''b'', ''bad''), (''c'', ''C'')]
        (\<lparr>Database = Some 1, entries = Some []\<rparr>, [])
       = (Some (Errval (Some (Foreign ''syntax error'')) (adding_msg ''b'')),
          \<lparr>Database = Some 1, entries = Some [(''a'', Some 1)]\<rparr>,
          [CtxPoll (Ctx 0), DbPrepare 1 (Ctx 0) ''A'', CtxPoll (Ctx 0), DbPrepare 1 (Ctx 0) ''bad''])
   \<and> ExtendContext (test_driver [] [''bad''] None 9) (Ctx 0) (Some [(''a'', ''A''), (''c'', ''C'')])
        (\<lparr>Database = Some 1, entries = None\<rparr>, [])
       = (None, \<lparr>Database = Some 1, entries = Some [(''a'', Some 1), (''c'', Some 3)]\<rparr>,
          [CtxPoll (Ctx 0), DbPrepare 1 (Ctx 0) ''A'', CtxPoll (Ctx 0), DbPrepare 1 (Ctx 0) ''C''])
   \<and> Extend (test_driver [] [''bad''] None 9) (Some [(''a'', ''A2'')])
        (\<lparr>Database = Some 1, entries = Some [(''a'', Some 1)]\<rparr>, [])
       = (Some (Errval None (exists_msg ''a'')),
          \<lparr>Database = Some 1, entries = Some [(''a'', Some 1)]\<rparr>, [CtxPoll Background])
   \<and> Len \<lparr>Database = Some 1, entries = Some [(''a'', Some 1)]\<rparr> = 1"
proof -
  let ?E = "test_driver [] [''bad''] None 9"
  let ?C = "test_driver [] [''bad''] None 2"
  let ?m = "\<lparr>Database = Some 1, entries = None\<rparr>"
  let ?m1 = "\<lparr>Database = Some 1, entries = Some [(''a'', Some 1)]\<rparr>"
  let ?t1 = "[CtxPoll (Ctx 0), DbPrepare 1 (Ctx 0) ''A'']"
  let ?t2 = "[CtxPoll (Ctx 0), DbPrepare 1 (Ctx 0) ''A'', CtxPoll (Ctx 0), DbPrepare 1 (Ctx 0) ''bad'']"
  let ?e = "Errval (Some (Foreign ''syntax error'')) (adding_msg ''b'')"
  let ?abc = "[(''a'', ''A''), (''b'', ''bad''), (''c'', ''C'')]"
  have db: "Database ?m = Some 1" by simp
  have db1: "Database ?m1 = Some 1" by simp
  have pre: "ExtendContext ?E (Ctx 0) (Some [(''a'', ''A'')]) (?m, []) = (None, ?m1, ?t1)"
    by (simp add: ExtendContext_def made_def poll_def test_driver_def)
  have preC: "ExtendContext ?C (Ctx 0) (Some [(''a'', ''A'')]) (?m, []) = (None, ?m1, ?t1)"
    by (simp add: ExtendContext_def made_def poll_def test_driver_def)
  have gone: "ctx_done ?C ?t1 0 = Some (Foreign ''context canceled'')"
    by (simp add: test_driver_def)
  have live: "poll ?E ?t1 (Ctx 0) = None"
    by (simp add: poll_def test_driver_def)
  have hb: "handle_of ?m1 ''b'' = None" and hc: "handle_of ?m1 ''c'' = None"
    and ha: "handle_of ?m1 ''a'' = Some 1"
    by (simp_all add: handle_of_def)
  have bad: "db_prepare ?E (?t1 @ [CtxPoll (Ctx 0)]) 1 (Ctx 0) ''bad'' = Inl (Foreign ''syntax error'')"
    by (simp add: test_driver_def)
  have good: "db_prepare ?E (?t1 @ [CtxPoll (Ctx 0)]) 1 (Ctx 0) ''C'' = Inr 3"
    by (simp add: test_driver_def)
  have empty: "ExtendContext ?E Background (Some []) (?m1, []) = (None, ?m1, [])"
    by (simp add: ExtendContext_def made_def)
  have bg: "poll ?E [] Background = None"
    by (simp add: poll_def)
  from Extend_applies_Add [of ?m 1 ?C "Ctx 0" "[]" "[]" "[(''a'', ''A'')]" ?m1 ?t1 "''c''" "''C''"
      "Foreign ''context canceled''" ?m1 "[]" "[]" None ?m1 "[]" None 0 0 0,
      THEN conjunct2, THEN conjunct2, THEN conjunct2, THEN conjunct2, THEN conjunct1]
    db preC gone
  have r_cancel: "ExtendContext ?C (Ctx 0) (Some [(''a'', ''A''), (''c'', ''C'')]) (?m, [])
       = (Some (Foreign ''context canceled''), ?m1, ?t1 @ [CtxPoll (Ctx 0)])"
    by simp
  note t = Extend_applies_Add [of ?m 1 ?E "Ctx 0" ?abc "[]" "[(''a'', ''A'')]" ?m1 ?t1 "''b''" "''bad''"
      "Foreign ''syntax error''" ?m1 "[]" "[(''c'', ''C'')]" None ?m1 "[]" None 0 0 0]
  from t [THEN conjunct2, THEN conjunct2, THEN conjunct2, THEN conjunct2, THEN conjunct2,
      THEN conjunct2, THEN conjunct1] db pre live hb bad
  have r_bad: "ExtendContext ?E (Ctx 0) (Some ?abc) (?m, []) = (Some ?e, ?m1, ?t2)"
    by simp
  from t [THEN conjunct1] db
  have "ExtendContext ?E (Ctx 0) (Some ?abc) (?m, [])
       = Extend_by_Add ?E (Ctx 0) ?abc (?m\<lparr>entries := Some (made ?m)\<rparr>, [])"
    by blast
  with r_bad
  have r_spec: "Extend_by_Add ?E (Ctx 0) ?abc (\<lparr>Database = Some 1, entries = Some []\<rparr>, [])
      = (Some ?e, ?m1, ?t2)"
    by (simp add: made_def del: Extend_by_Add.simps)
  from Extend_applies_Add [of ?m 1 ?E "Ctx 0" "[]" "[]" "[(''a'', ''A'')]" ?m1 ?t1 "''c''" "''C''"
      "Foreign ''z''" ?m1 "[]" "[]" None ?m1 "[]" None 0 0 3,
      THEN conjunct2, THEN conjunct2, THEN conjunct2, THEN conjunct2, THEN conjunct2,
      THEN conjunct2, THEN conjunct2, THEN conjunct1] db pre live hc good
  have r_add: "ExtendContext ?E (Ctx 0) (Some [(''a'', ''A''), (''c'', ''C'')]) (?m, [])
       = (None, \<lparr>Database = Some 1, entries = Some [(''a'', Some 1), (''c'', Some 3)]\<rparr>,
          ?t1 @ [CtxPoll (Ctx 0), DbPrepare 1 (Ctx 0) ''C''])"
    by (simp add: made_def)
  note u = Extend_applies_Add [of ?m1 1 ?E Background "[]" "[]" "[]" ?m1 "[]" "''a''" "''A2''"
      "Foreign ''z''" ?m1 "[]" "[]" None ?m1 "[]" "Some [(''a'', ''A2'')]" 0 1 0]
  from u [THEN conjunct2, THEN conjunct2, THEN conjunct2, THEN conjunct2, THEN conjunct2,
      THEN conjunct1] db1 empty bg ha
  have "ExtendContext ?E Background (Some [(''a'', ''A2'')]) (?m1, [])
       = (Some (Errval None (exists_msg ''a'')), ?m1, [CtxPoll Background])"
    by simp
  with u [THEN conjunct2, THEN conjunct2, THEN conjunct2, THEN conjunct1]
  have r_dup: "Extend ?E (Some [(''a'', ''A2'')]) (?m1, [])
       = (Some (Errval None (exists_msg ''a'')), ?m1, [CtxPoll Background])"
    by simp
  from preC gone r_cancel r_bad r_spec r_add r_dup show ?thesis
    by (simp add: Len_def)
qed

subsection \<open>Close\<close>

lemma update_at:
  "k \<notin> fst ` set xs \<Longrightarrow> AList.update k v (xs @ (k, w) # ys) = xs @ (k, v) # ys"
  by (induction xs) auto

lemma keys_nulled: "map fst (nulled es) = map fst es"
  by (simp add: nulled_def split_beta)

lemma nulled_append: "nulled (xs @ ys) = nulled xs @ nulled ys"
  by (simp add: nulled_def)

lemma handles_nulled: "handles (nulled xs @ ys) = handles ys"
  by (induction xs) (simp_all add: nulled_def split_beta)

lemma Close_loop_prefix:
  "distinct (map fst (dn @ pre @ post)) \<Longrightarrow> closes_ok env pre tr \<Longrightarrow>
     Close_loop env (pre @ post) (nulled dn @ pre @ post) tr
       = Close_loop env post (nulled dn @ nulled pre @ post) (tr @ closed_log pre)"
proof (induction pre arbitrary: dn tr)
  case Nil
  then show ?case by (simp add: nulled_def closed_log_def)
next
  case (Cons kv pre)
  obtain k v where kv: "kv = (k, v)" by (cases kv)
  have dist: "distinct (map fst ((dn @ [(k, None)]) @ pre @ post))"
    using Cons.prems(1) kv by simp
  have shift: "nulled (dn @ [(k, None)]) @ xs = nulled dn @ (k, None) # xs" for xs
    by (simp add: nulled_def)
  show ?case
  proof (cases v)
    case None
    with Cons.prems kv have ok: "closes_ok env pre tr" by simp
    from Cons.IH [OF dist ok] None kv show ?thesis
      by (simp add: shift closed_log_def) (simp add: nulled_def)
  next
    case (Some s)
    with Cons.prems kv have ok: "stmt_close env tr s = None"
      "closes_ok env pre (tr @ [StmtClose s])" by simp_all
    have "k \<notin> fst ` set (nulled dn)"
      using Cons.prems(1) kv by (simp add: nulled_def image_image split_beta)
    then have upd: "AList.update k None (nulled dn @ (k, Some s) # pre @ post)
        = nulled dn @ (k, None) # pre @ post"
      by (rule update_at)
    from Cons.IH [OF dist ok(2)] Some kv ok(1) upd show ?thesis
      by (simp add: shift closed_log_def) (simp add: nulled_def)
  qed
qed

lemma Close_loop_run:
  assumes "distinct (map fst (pre @ post))" and "closes_ok env pre tr"
  shows "Close_loop env (pre @ post) (pre @ post) tr
       = Close_loop env post (nulled pre @ post) (tr @ closed_log pre)"
  using Close_loop_prefix [of "[]" pre post env tr] assms by (simp add: nulled_def)

lemma Close_entries_None:
  "entries m = None \<Longrightarrow> Close env (m, tr) =
     (case Database m of None \<Rightarrow> Panics
      | Some d \<Rightarrow> Returns (db_close env tr d, m, tr @ [DbClose d]))"
  by (simp add: Close_def split: option.splits)

lemma Close_all_closed:
  assumes "entries m = Some es" and "distinct (map fst es)" and "closes_ok env es tr"
  shows "Close env (m, tr) =
     (case Database m of None \<Rightarrow> Panics
      | Some d \<Rightarrow> Returns (db_close env (tr @ closed_log es) d, m\<lparr>entries := Some (nulled es)\<rparr>,
                           tr @ closed_log es @ [DbClose d]))"
proof -
  have "Close_loop env es es tr = (None, nulled es, tr @ closed_log es)"
    using Close_loop_run [of es "[]" env tr] assms(2,3) by simp
  with assms(1) show ?thesis
    by (simp add: Close_def split: option.splits)
qed

text \<open>
  C2, as the code has it. \<open>Close\<close> closes the handles that are not nil in the order of
  the map. When the handle \<open>s\<close> of the entry \<open>k\<close> is the first that fails to close,
  with \<open>e\<close>, the call returns \<open>e\<close> wrapped in an error whose text holds \<open>k\<close>; the
  log ends with the attempt on \<open>s\<close>, so neither an entry after \<open>k\<close> nor the connection
  is closed; the entries before \<open>k\<close> keep their keys with the handle set to nil, \<open>k\<close>
  and the entries after it are as before, and so the handles a repeated \<open>Close\<close> will
  try are \<open>s\<close> and those after it. When every handle closes (or the map is nil) and
  there is a connection, the connection is closed last and what closing it answers is
  returned as it is, not wrapped.
\<close>

theorem Close_stops_at_first_failure:
  "(entries m = Some (pre @ (k, Some s) # post) \<and> distinct (map fst (pre @ (k, Some s) # post))
      \<and> closes_ok env pre tr \<and> stmt_close env (tr @ closed_log pre) s = Some e \<longrightarrow>
      Close env (m, tr) = Returns (Some (Errval (Some e) (close_msg k)),
          m\<lparr>entries := Some (nulled pre @ (k, Some s) # post)\<rparr>,
          tr @ closed_log pre @ [StmtClose s])
      \<and> handles (nulled pre @ (k, Some s) # post) = s # handles post)
   \<and> (Database m = Some d \<and> entries m = Some es \<and> distinct (map fst es)
      \<and> closes_ok env es tr \<longrightarrow>
      Close env (m, tr) = Returns (db_close env (tr @ closed_log es) d,
          m\<lparr>entries := Some (nulled es)\<rparr>, tr @ closed_log es @ [DbClose d]))
   \<and> (Database m = Some d \<and> entries m = None \<longrightarrow>
      Close env (m, tr) = Returns (db_close env tr d, m, tr @ [DbClose d]))"
proof -
  have fails: "Close env (m, tr) = Returns (Some (Errval (Some e) (close_msg k)),
          m\<lparr>entries := Some (nulled pre @ (k, Some s) # post)\<rparr>,
          tr @ closed_log pre @ [StmtClose s])"
    if es: "entries m = Some (pre @ (k, Some s) # post)"
      and dist: "distinct (map fst (pre @ (k, Some s) # post))"
      and ok: "closes_ok env pre tr"
      and bad: "stmt_close env (tr @ closed_log pre) s = Some e"
  proof -
    have "Close_loop env (pre @ (k, Some s) # post) (pre @ (k, Some s) # post) tr
        = Close_loop env ((k, Some s) # post) (nulled pre @ (k, Some s) # post) (tr @ closed_log pre)"
      using dist ok by (rule Close_loop_run)
    also have "\<dots> = (Some (Errval (Some e) (close_msg k)), nulled pre @ (k, Some s) # post,
        (tr @ closed_log pre) @ [StmtClose s])"
      using bad by simp
    finally show ?thesis
      using es by (simp add: Close_def)
  qed
  have residual: "handles (nulled pre @ (k, Some s) # post) = s # handles post"
    by (simp add: handles_nulled)
  have all: "Close env (m, tr) = Returns (db_close env (tr @ closed_log es) d,
          m\<lparr>entries := Some (nulled es)\<rparr>, tr @ closed_log es @ [DbClose d])"
    if "Database m = Some d" "entries m = Some es" "distinct (map fst es)" "closes_ok env es tr"
    using that by (simp add: Close_all_closed)
  have none: "Close env (m, tr) = Returns (db_close env tr d, m, tr @ [DbClose d])"
    if "Database m = Some d" "entries m = None"
    using that by (simp add: Close_entries_None)
  from fails residual all none show ?thesis by blast
qed

theorem Close_stops_at_first_failure_witness:
  "distinct (map fst [(''a'', Some 0), (''b'', Some 1), (''c'', Some 2)])
   \<and> closes_ok (test_driver [1] [] (Some (Foreign ''db busy'')) 9) [(''a'', Some 0)] []
   \<and> stmt_close (test_driver [1] [] (Some (Foreign ''db busy'')) 9) [StmtClose 0] 1
       = Some (Foreign ''close failed'')
   \<and> Close (test_driver [1] [] (Some (Foreign ''db busy'')) 9)
        (\<lparr>Database = Some 1, entries = Some [(''a'', Some 0), (''b'', Some 1), (''c'', Some 2)]\<rparr>, [])
       = Returns (Some (Errval (Some (Foreign ''close failed'')) (close_msg ''b'')),
           \<lparr>Database = Some 1, entries = Some [(''a'', None), (''b'', Some 1), (''c'', Some 2)]\<rparr>,
           [StmtClose 0, StmtClose 1])
   \<and> closes_ok (test_driver [1] [] (Some (Foreign ''db busy'')) 9)
        [(''a'', None), (''b'', Some 1), (''c'', Some 2)] [StmtClose 0, StmtClose 1]
   \<and> Close (test_driver [1] [] (Some (Foreign ''db busy'')) 9)
        (\<lparr>Database = Some 1, entries = Some [(''a'', None), (''b'', Some 1), (''c'', Some 2)]\<rparr>,
         [StmtClose 0, StmtClose 1])
       = Returns (Some (Foreign ''db busy''),
           \<lparr>Database = Some 1, entries = Some [(''a'', None), (''b'', None), (''c'', None)]\<rparr>,
           [StmtClose 0, StmtClose 1, StmtClose 1, StmtClose 2, DbClose 1])
   \<and> Close (test_driver [1] [] (Some (Foreign ''db busy'')) 9)
        (\<lparr>Database = Some 1, entries = None\<rparr>, [])
       = Returns (Some (Foreign ''db busy''), \<lparr>Database = Some 1, entries = None\<rparr>, [DbClose 1])"
proof -
  let ?E = "test_driver [1] [] (Some (Foreign ''db busy'')) 9"
  let ?es = "[(''a'', Some 0), (''b'', Some 1), (''c'', Some 2)]"
  let ?es' = "[(''a'', None), (''b'', Some 1), (''c'', Some 2)]"
  let ?m = "\<lparr>Database = Some 1, entries = Some ?es\<rparr>"
  let ?m' = "\<lparr>Database = Some 1, entries = Some ?es'\<rparr>"
  let ?n = "\<lparr>Database = Some 1, entries = None\<rparr>"
  have d: "distinct (map fst ?es)" by simp
  have d': "distinct (map fst ?es')" by simp
  have ok: "closes_ok ?E [(''a'', Some 0)] []" by (simp add: test_driver_def)
  have bad: "stmt_close ?E ([] @ closed_log [(''a'', Some 0)]) 1 = Some (Foreign ''close failed'')"
    by (simp add: test_driver_def closed_log_def)
  have ok': "closes_ok ?E ?es' [StmtClose 0, StmtClose 1]" by (simp add: test_driver_def)
  have e: "entries ?m = Some ([(''a'', Some 0)] @ (''b'', Some 1) # [(''c'', Some 2)])" by simp
  have dd: "distinct (map fst ([(''a'', Some 0)] @ (''b'', Some (1::nat)) # [(''c'', Some 2)]))" by simp
  from Close_stops_at_first_failure [of ?m "[(''a'', Some 0)]" "''b''" 1 "[(''c'', Some 2)]" ?E "[]"
      "Foreign ''close failed''" 1 "[]", THEN conjunct1] e dd ok bad
  have r1: "Close ?E (?m, []) = Returns (Some (Errval (Some (Foreign ''close failed'')) (close_msg ''b'')),
           ?m', [StmtClose 0, StmtClose 1])"
    by (simp add: nulled_def closed_log_def)
  from Close_stops_at_first_failure [of ?m' "[]" "''z''" 0 "[]" ?E "[StmtClose 0, StmtClose 1]"
      "Foreign ''z''" 1 ?es', THEN conjunct2, THEN conjunct1] d' ok'
  have r2: "Close ?E (?m', [StmtClose 0, StmtClose 1]) = Returns (Some (Foreign ''db busy''),
           \<lparr>Database = Some 1, entries = Some [(''a'', None), (''b'', None), (''c'', None)]\<rparr>,
           [StmtClose 0, StmtClose 1, StmtClose 1, StmtClose 2, DbClose 1])"
    by (simp add: nulled_def closed_log_def test_driver_def)
  from Close_stops_at_first_failure [of ?n "[]" "''z''" 0 "[]" ?E "[]"
      "Foreign ''z''" 1 "[]", THEN conjunct2, THEN conjunct2]
  have r3: "Close ?E (?n, []) = Returns (Some (Foreign ''db busy''), ?n, [DbClose 1])"
    by (simp add: test_driver_def)
  from d ok bad ok' r1 r2 r3 show ?thesis
    by (simp add: closed_log_def)
qed

text \<open>
  The specification also has the error of closing the connection wrapped with a name.
  It is not: here the one handle closes, the connection answers \<open>db busy\<close>, and that
  very error is the result.
\<close>

theorem Close_connection_error_counterexample:
  "Close (test_driver [] [] (Some (Foreign ''db busy'')) 9)
      (\<lparr>Database = Some 1, entries = Some [(''a'', Some 0)]\<rparr>, [])
     = Returns (Some (Foreign ''db busy''), \<lparr>Database = Some 1, entries = Some [(''a'', None)]\<rparr>,
                [StmtClose 0, DbClose 1])
   \<and> Unwrap (Foreign ''db busy'') = None
   \<and> Foreign ''db busy'' \<noteq> Errval (Some (Foreign ''db busy'')) (close_msg ''a'')"
  by (simp add: Close_def test_driver_def)

subsection \<open>Calls on a struct without a connection\<close>

text \<open>
  With a nil connection \<open>AddContext\<close>, \<open>ExtendContext\<close> (on a mapping that is not nil),
  \<open>BatchContext\<close> (on a list that is not empty), \<open>ExecContext\<close> and \<open>QueryContext\<close>
  return \<open>ErrInvalidDB\<close>, and \<open>QueryRowContext\<close> returns no row and \<open>False\<close>.
\<close>

lemma nil_connection_reports:
  assumes "Database m = None"
  shows "AddContext env x n q (m, tr) = (Some ErrInvalidDB, m, tr)"
    and "ExtendContext env x (Some kvs) (m, tr) = (Some ErrInvalidDB, m, tr)"
    and "qs \<noteq> [] \<Longrightarrow> BatchContext env x qs (m, tr) = (Some ErrInvalidDB, tr)"
    and "ExecContext env x n args (m, tr) = ((None, Some ErrInvalidDB), tr)"
    and "QueryContext env x n args (m, tr) = ((None, Some ErrInvalidDB), tr)"
    and "QueryRowContext env x n args (m, tr) = ((None, False), tr)"
  using assms
  by (simp_all add: AddContext_def ExtendContext_def BatchContext_def ExecContext_def
      QueryContext_def QueryRowContext_def)

text \<open>
  C8. \<open>Close\<close> is the exception. It has no test of the connection: on the struct
  \<^verbatim>\<open>&Map{}\<close>, whose connection and map are nil, the loop is skipped and
  \<^verbatim>\<open>m.Database.Close()\<close> is called on the nil connection, which panics. No error value is
  returned.
\<close>

theorem Close_nil_connection_panics:
  "reachable env (\<lparr>Database = None, entries = None\<rparr>, tr)
   \<and> Close env (\<lparr>Database = None, entries = None\<rparr>, tr) = Panics"
  by (simp add: Close_def reachable.fresh)

text \<open>The same happens whenever the connection is nil and every handle closes.\<close>

lemma Close_panics_without_connection:
  assumes "Database m = None"
    and "entries m = None \<or> (\<exists>es. entries m = Some es \<and> distinct (map fst es) \<and> closes_ok env es tr)"
  shows "Close env (m, tr) = Panics"
  using assms by (auto simp: Close_entries_None Close_all_closed)

subsection \<open>Remove\<close>

text \<open>
  On a name that is not a key, \<open>Remove\<close> returns \<open>False\<close> and changes nothing (so
  \<open>Len\<close> is as before). On a name with a handle that is not nil it closes the handle,
  whatever closing answers, deletes the key and returns \<open>True\<close>; then \<open>Contains\<close> and
  \<open>Get\<close> do not find the name.
\<close>

lemma Remove_absent:
  assumes "n \<notin> fst ` set (made m)"
  shows "Remove env n (m, tr) = Returns (False, m, tr)"
proof -
  from assms have "map_of (made m) n = None"
    by (simp add: map_of_eq_None_iff)
  then show ?thesis
    by (cases "entries m") (simp_all add: Remove_def made_def index_def)
qed

lemma Remove_present:
  assumes "entries m = Some es" and "map_of es n = Some (Some h)"
  shows "Remove env n (m, tr)
      = Returns (True, m\<lparr>entries := Some (AList.delete n es)\<rparr>, tr @ [StmtClose h])"
    and "\<not> Contains (m\<lparr>entries := Some (AList.delete n es)\<rparr>) n"
    and "Get (m\<lparr>entries := Some (AList.delete n es)\<rparr>) n = (None, False)"
proof -
  show "Remove env n (m, tr)
      = Returns (True, m\<lparr>entries := Some (AList.delete n es)\<rparr>, tr @ [StmtClose h])"
    using assms by (simp add: Remove_def index_def)
  have gone: "map_of (AList.delete n es) n = None"
    by (simp add: delete_conv')
  then show "\<not> Contains (m\<lparr>entries := Some (AList.delete n es)\<rparr>) n"
    by (simp add: Contains_def index_def)
  from gone show "Get (m\<lparr>entries := Some (AList.delete n es)\<rparr>) n = (None, False)"
    by (simp add: Get_def index_def)
qed

text \<open>
  A key with a nil handle is what \<open>Close\<close> leaves behind. For such a name \<open>Remove\<close>
  has \<^verbatim>\<open>ok == true\<close> and calls \<^verbatim>\<open>s.Close()\<close> on the nil handle.
\<close>

lemma Remove_nil_handle:
  "entries m = Some es \<Longrightarrow> map_of es n = Some None \<Longrightarrow> Remove env n (m, tr) = Panics"
  by (simp add: Remove_def index_def)

text \<open>
  C7. What the specification says of a present name fails when the name is present
  with a nil handle: after
  \<^verbatim>\<open>Add("a", "SELECT 1")\<close> and a \<open>Close\<close> in which everything closes, \<open>a\<close> is still a key
  (\<open>Len\<close> is 1) and \<^verbatim>\<open>Remove("a")\<close> panics instead of returning \<open>True\<close>.
\<close>

theorem Remove_closed_name_panics:
  "Add (test_driver [] [] None 9) ''a'' ''SELECT 1'' (\<lparr>Database = Some 1, entries = None\<rparr>, [])
     = (None, \<lparr>Database = Some 1, entries = Some [(''a'', Some 0)]\<rparr>,
        [DbPrepare 1 Background ''SELECT 1''])
   \<and> Close (test_driver [] [] None 9)
        (\<lparr>Database = Some 1, entries = Some [(''a'', Some 0)]\<rparr>, [DbPrepare 1 Background ''SELECT 1''])
     = Returns (None, \<lparr>Database = Some 1, entries = Some [(''a'', None)]\<rparr>,
        [DbPrepare 1 Background ''SELECT 1'', StmtClose 0, DbClose 1])
   \<and> Len \<lparr>Database = Some 1, entries = Some [(''a'', None)]\<rparr> = 1
   \<and> Remove (test_driver [] [] None 9) ''a''
        (\<lparr>Database = Some 1, entries = Some [(''a'', None)]\<rparr>,
         [DbPrepare 1 Background ''SELECT 1'', StmtClose 0, DbClose 1])
     = Panics"
  by (simp add: Add_def AddContext_def Close_def Remove_def Len_def made_def index_def
      test_driver_def)

subsection \<open>Entries with a nil handle\<close>

lemma update_present_keys:
  "k \<in> fst ` set cur \<Longrightarrow> map fst (AList.update k v cur) = map fst cur"
  by (induction cur) auto

lemma update_set: "set (AList.update k v cur) \<subseteq> insert (k, v) (set cur)"
  by (induction cur) auto

lemma Close_loop_keeps_keys:
  "Close_loop env vis cur tr = (err, cur', tr') \<Longrightarrow> fst ` set vis \<subseteq> fst ` set cur \<Longrightarrow>
     map fst cur' = map fst cur \<and> (\<forall>kv\<in>set cur'. snd kv = None \<or> kv \<in> set cur)"
proof (induction vis arbitrary: cur tr)
  case Nil
  then show ?case by simp
next
  case (Cons kv vis)
  obtain k v where kv: "kv = (k, v)" by (cases kv)
  from Cons.prems(2) kv have k: "k \<in> fst ` set cur" and rest: "fst ` set vis \<subseteq> fst ` set cur"
    by auto
  show ?case
  proof (cases "\<exists>s. v = Some s \<and> stmt_close env tr s = None")
    case False
    then consider "v = None" | s e where "v = Some s" "stmt_close env tr s = Some e"
      by (cases v) auto
    then show ?thesis
    proof cases
      case 1
      with Cons.prems(1) kv have "Close_loop env vis cur tr = (err, cur', tr')" by simp
      from Cons.IH [OF this rest] show ?thesis .
    next
      case 2
      with Cons.prems(1) kv have "cur' = cur" by simp
      then show ?thesis by simp
    qed
  next
    case True
    then obtain s where s: "v = Some s" "stmt_close env tr s = None" by blast
    let ?cur = "AList.update k None cur"
    from Cons.prems(1) kv s
    have run: "Close_loop env vis ?cur (tr @ [StmtClose s]) = (err, cur', tr')" by simp
    have keys: "map fst ?cur = map fst cur"
      using k by (rule update_present_keys)
    then have "fst ` set ?cur = fst ` set cur"
      by (metis list.set_map)
    with rest have "fst ` set vis \<subseteq> fst ` set ?cur" by simp
    from Cons.IH [OF run this]
    have ih: "map fst cur' = map fst ?cur" "\<forall>kv\<in>set cur'. snd kv = None \<or> kv \<in> set ?cur"
      by simp_all
    have "snd kv = None \<or> kv \<in> set cur" if "kv \<in> set cur'" for kv
    proof -
      from ih(2) that have "snd kv = None \<or> kv \<in> set ?cur" by blast
      then show ?thesis
        using update_set [of k None cur] by auto
    qed
    with ih(1) keys show ?thesis by simp
  qed
qed

lemma nil_keys_iff: "k \<in> set (nil_keys m) \<longleftrightarrow> (k, None) \<in> set (made m)"
  by (force simp: nil_keys_def)

lemma nil_keys_empty_iff: "nil_keys m = [] \<longleftrightarrow> (\<forall>k. (k, None) \<notin> set (made m))"
  using nil_keys_iff [of _ m] by (metis all_not_in_conv set_empty)

lemma update_Some_nil: "(k, None) \<in> set (AList.update n (Some h) cur) \<Longrightarrow> (k, None) \<in> set cur"
  using update_set [of n "Some h" cur] by auto

lemma delete_subset: "set (AList.delete n es) \<subseteq> set es"
  by (induction es) auto

lemma AddContext_nil_keys:
  assumes "AddContext env x n q (m, tr) = (err, m', tr')"
  shows "set (nil_keys m') \<subseteq> set (nil_keys m)"
proof
  fix k assume "k \<in> set (nil_keys m')"
  then have k: "(k, None) \<in> set (made m')" by (simp add: nil_keys_iff)
  from assms have "made m' = made m \<or> (\<exists>h. made m' = AList.update n (Some h) (made m))"
    by (auto simp: AddContext_def Let_def made_def split: option.splits sum.splits if_splits prod.splits)
  with k have "(k, None) \<in> set (made m)"
    by (auto dest: update_Some_nil)
  then show "k \<in> set (nil_keys m)" by (simp add: nil_keys_iff)
qed

lemma Extend_loop_nil:
  "Extend_loop env x d kvs cur tr = (err, cur', tr') \<Longrightarrow> (k, None) \<in> set cur'
     \<Longrightarrow> (k, None) \<in> set cur"
proof (induction kvs arbitrary: cur tr)
  case Nil
  then show ?case by simp
next
  case (Cons kv rest)
  obtain n v where kv: "kv = (n, v)" by (cases kv)
  show ?case
  proof (cases "\<exists>h. poll env tr x = None \<and> (\<forall>s. map_of cur n \<noteq> Some (Some s))
      \<and> db_prepare env (tr @ [CtxPoll x]) d x v = Inr h")
    case True
    then obtain h where h: "poll env tr x = None" "\<forall>s. map_of cur n \<noteq> Some (Some s)"
      "db_prepare env (tr @ [CtxPoll x]) d x v = Inr h" by blast
    from h(2) have nd: "(case map_of cur n of Some (Some s) \<Rightarrow> a s | _ \<Rightarrow> b) = b" for a and b :: 'z
      by (auto split: option.splits)
    from Cons.prems(1) kv h have "Extend_loop env x d rest (AList.update n (Some h) cur)
        (tr @ [CtxPoll x, DbPrepare d x v]) = (err, cur', tr')"
      by (simp add: nd)
    from Cons.IH [OF this Cons.prems(2)] show ?thesis
      by (rule update_Some_nil)
  next
    case False
    with Cons.prems(1) kv have "cur' = cur"
      by (auto split: option.splits sum.splits)
    with Cons.prems(2) show ?thesis by simp
  qed
qed

lemma ExtendContext_nil_keys:
  assumes "ExtendContext env x data (m, tr) = (err, m', tr')"
  shows "set (nil_keys m') \<subseteq> set (nil_keys m)"
proof
  fix k assume "k \<in> set (nil_keys m')"
  then have k: "(k, None) \<in> set (made m')" by (simp add: nil_keys_iff)
  have "(k, None) \<in> set (made m)"
  proof (cases "\<exists>kvs d. data = Some kvs \<and> Database m = Some d")
    case False
    with assms have "m' = m"
      by (auto simp: ExtendContext_def split: option.splits)
    with k show ?thesis by simp
  next
    case True
    then obtain kvs d where d: "data = Some kvs" "Database m = Some d" by blast
    obtain r c t where l: "Extend_loop env x d kvs (made m) tr = (r, c, t)"
      by (cases "Extend_loop env x d kvs (made m) tr")
    with assms d have "made m' = c"
      by (auto simp: ExtendContext_def made_def)
    with k Extend_loop_nil [OF l] show ?thesis by simp
  qed
  then show "k \<in> set (nil_keys m)" by (simp add: nil_keys_iff)
qed

lemma Remove_nil_keys:
  assumes "Remove env n (m, tr) = Returns (b, m', tr')"
  shows "set (nil_keys m') \<subseteq> set (nil_keys m)"
proof
  fix k assume "k \<in> set (nil_keys m')"
  then have k: "(k, None) \<in> set (made m')" by (simp add: nil_keys_iff)
  from assms consider "m' = m"
    | es where "entries m = Some es" "m' = m\<lparr>entries := Some (AList.delete n es)\<rparr>"
    by (auto simp: Remove_def Let_def split: option.splits prod.splits if_splits)
  then have "(k, None) \<in> set (made m)"
  proof cases
    case 1
    with k show ?thesis by simp
  next
    case 2
    then have "made m' = AList.delete n es" "made m = es"
      by (simp_all add: made_def)
    with k delete_subset [of n es] show ?thesis by auto
  qed
  then show "k \<in> set (nil_keys m)" by (simp add: nil_keys_iff)
qed

lemma reachable_unclosed_no_nil: "reachable_unclosed env st \<Longrightarrow> nil_keys (fst st) = []"
proof (induction rule: reachable_unclosed.induct)
  case (fresh d tr)
  show ?case by (simp add: nil_keys_def made_def)
next
  case (range_order m tr es es')
  from range_order.hyps(3) have "set es' = set es" by (rule mset_eq_setD)
  with range_order show ?case
    by (simp add: nil_keys_empty_iff made_def)
next
  case (add st x name query err st')
  then show ?case
    using AddContext_nil_keys [of env x name query "fst st" "snd st" err "fst st'" "snd st'"]
    by simp
next
  case (extend st x data err st')
  then show ?case
    using ExtendContext_nil_keys [of env x data "fst st" "snd st" err "fst st'" "snd st'"]
    by simp
next
  case (remove st name b st')
  then show ?case
    using Remove_nil_keys [of env name "fst st" "snd st" b "fst st'" "snd st'"]
    by simp
qed simp_all

lemma reachable_unclosed_reachable: "reachable_unclosed env st \<Longrightarrow> reachable env st"
  by (induction rule: reachable_unclosed.induct) (auto intro: reachable.intros)

lemma nil_key_handle:
  assumes "reachable env (m, tr)" and "n \<in> set (nil_keys m)"
  shows "map_of (made m) n = Some None" and "handle_of m n = None"
proof -
  from reachable_well_formed [OF assms(1)] have "distinct (map fst (made m))"
    by (simp add: well_formed_def)
  moreover from assms(2) have "(n, None) \<in> set (made m)" by (simp add: nil_keys_iff)
  ultimately show *: "map_of (made m) n = Some None" by simp
  show "handle_of m n = None"
  proof (cases "entries m")
    case None
    then show ?thesis by (simp add: handle_of_def)
  next
    case (Some es)
    with * show ?thesis by (simp add: handle_of_def made_def)
  qed
qed

lemma nil_handle_as_absent:
  assumes "Database m = Some d" and "handle_of m n = None"
  shows "ExecContext env x n args (m, tr) = ((None, Some (Errval None (missing_msg n))), tr)"
    and "QueryContext env x n args (m, tr) = ((None, Some (Errval None (missing_msg n))), tr)"
    and "QueryRowContext env x n args (m, tr) = ((None, False), tr)"
    and "snd (snd (AddContext env x n q (m, tr))) = tr @ [DbPrepare d x q]"
    and "fst (AddContext env x n q (m, tr)) \<noteq> Some (Errval None (exists_msg n))"
proof -
  have nf: "(if \<not> snd (index m n) then None else fst (index m n)) = None"
    using assms(2) by (auto simp: handle_of_def index_def split: option.splits)
  show "ExecContext env x n args (m, tr) = ((None, Some (Errval None (missing_msg n))), tr)"
    "QueryContext env x n args (m, tr) = ((None, Some (Errval None (missing_msg n))), tr)"
    "QueryRowContext env x n args (m, tr) = ((None, False), tr)"
    using assms(1) nf
    by (simp_all add: ExecContext_def QueryContext_def QueryRowContext_def split_beta)
  show "snd (snd (AddContext env x n q (m, tr))) = tr @ [DbPrepare d x q]"
    "fst (AddContext env x n q (m, tr)) \<noteq> Some (Errval None (exists_msg n))"
    using assms
    by (auto simp: AddContext_def Let_def handle_of_def index_def made_def
        split: option.splits sum.splits)
qed

lemma nil_keys_nulled: "made m = nulled es \<Longrightarrow> nil_keys m = map fst es"
  by (simp add: nil_keys_def nulled_def split_beta comp_def)

lemma Close_fails_at:
  assumes es: "entries m = Some (pre @ (k, Some s) # post)"
    and dist: "distinct (map fst (pre @ (k, Some s) # post))"
    and ok: "closes_ok env pre tr"
    and bad: "stmt_close env (tr @ closed_log pre) s = Some e"
  shows "Close env (m, tr) = Returns (Some (Errval (Some e) (close_msg k)),
          m\<lparr>entries := Some (nulled pre @ (k, Some s) # post)\<rparr>,
          tr @ closed_log pre @ [StmtClose s])"
proof -
  have "Close_loop env (pre @ (k, Some s) # post) (pre @ (k, Some s) # post) tr
      = Close_loop env ((k, Some s) # post) (nulled pre @ (k, Some s) # post) (tr @ closed_log pre)"
    using dist ok by (rule Close_loop_run)
  also have "\<dots> = (Some (Errval (Some e) (close_msg k)), nulled pre @ (k, Some s) # post,
      (tr @ closed_log pre) @ [StmtClose s])"
    using bad by simp
  finally show ?thesis
    using es by (simp add: Close_def)
qed

text \<open>
  C3, as the code has it. A key with a nil handle is what \<open>Close\<close> makes, and nothing
  else makes one: a state reached without \<open>Close\<close> has none, and \<open>AddContext\<close>,
  \<open>ExtendContext\<close> and \<open>Remove\<close> never add one to those there are. \<open>Close\<close> keeps every
  key; when every handle closes, every handle is nil afterwards, and when the handle of
  \<open>k\<close> is the first to fail, the handles before \<open>k\<close> are nil and \<open>k\<close> and those after
  it are as they were. \<open>Remove\<close>, when it returns \<open>True\<close>, has deleted the key.
  \<open>Contains\<close> is true exactly for a name with a handle that is not nil; for a key with a
  nil handle, as for a name that is no key, \<open>ExecContext\<close> and \<open>QueryContext\<close> return
  the "does not exist" error, \<open>QueryRowContext\<close> returns no row and \<open>False\<close>, and
  \<open>AddContext\<close> reports no duplicate and goes on to prepare.
\<close>

theorem null_entries_not_reported:
  "(reachable_unclosed env (m, tr) \<longrightarrow> nil_keys m = [])
   \<and> (AddContext env x n q (m, tr) = (err, m', tr') \<longrightarrow> set (nil_keys m') \<subseteq> set (nil_keys m))
   \<and> (ExtendContext env x data (m, tr) = (err, m', tr') \<longrightarrow>
        set (nil_keys m') \<subseteq> set (nil_keys m))
   \<and> (Remove env n (m, tr) = Returns (b, m', tr') \<longrightarrow>
        set (nil_keys m') \<subseteq> set (nil_keys m)
        \<and> (b \<longrightarrow> n \<notin> fst ` set (made m') \<and> Get m' n = (None, False) \<and> \<not> Contains m' n))
   \<and> (reachable env (m, tr) \<and> entries m = Some es \<and> closes_ok env es tr
        \<and> Close env (m, tr) = Returns (err, m', tr') \<longrightarrow>
        entries m' = Some (nulled es) \<and> nil_keys m' = map fst es)
   \<and> (reachable env (m, tr) \<and> entries m = Some (pre @ (k, Some s) # post)
        \<and> closes_ok env pre tr \<and> stmt_close env (tr @ closed_log pre) s = Some e
        \<and> Close env (m, tr) = Returns (err, m', tr') \<longrightarrow>
        entries m' = Some (nulled pre @ (k, Some s) # post))
   \<and> (Close env (m, tr) = Returns (err, m', tr') \<longrightarrow>
        map fst (made m') = map fst (made m)
        \<and> (\<forall>kv\<in>set (made m'). snd kv = None \<or> kv \<in> set (made m)))
   \<and> (Contains m n \<longleftrightarrow> handle_of m n \<noteq> None)
   \<and> (reachable env (m, tr) \<and> n \<in> set (nil_keys m) \<longrightarrow>
        handle_of m n = None \<and> \<not> Contains m n)
   \<and> (Database m = Some d \<and> handle_of m n = None \<longrightarrow>
        ExecContext env x n args (m, tr) = ((None, Some (Errval None (missing_msg n))), tr)
        \<and> QueryContext env x n args (m, tr) = ((None, Some (Errval None (missing_msg n))), tr)
        \<and> QueryRowContext env x n args (m, tr) = ((None, False), tr)
        \<and> snd (snd (AddContext env x n q (m, tr))) = tr @ [DbPrepare d x q]
        \<and> fst (AddContext env x n q (m, tr)) \<noteq> Some (Errval None (exists_msg n)))"
proof -
  have unclosed: "nil_keys m = []" if "reachable_unclosed env (m, tr)"
    using reachable_unclosed_no_nil [OF that] by simp
  have added: "set (nil_keys m') \<subseteq> set (nil_keys m)"
    if "AddContext env x n q (m, tr) = (err, m', tr')"
    using that by (rule AddContext_nil_keys)
  have extended: "set (nil_keys m') \<subseteq> set (nil_keys m)"
    if "ExtendContext env x data (m, tr) = (err, m', tr')"
    using that by (rule ExtendContext_nil_keys)
  have removed: "set (nil_keys m') \<subseteq> set (nil_keys m)
        \<and> (b \<longrightarrow> n \<notin> fst ` set (made m') \<and> Get m' n = (None, False) \<and> \<not> Contains m' n)"
    if run: "Remove env n (m, tr) = Returns (b, m', tr')"
  proof -
    have gone: "n \<notin> fst ` set (made m') \<and> Get m' n = (None, False) \<and> \<not> Contains m' n" if b
    proof -
      from run that obtain es where es: "entries m = Some es"
        "m' = m\<lparr>entries := Some (AList.delete n es)\<rparr>"
        by (auto simp: Remove_def Let_def split: option.splits prod.splits if_splits)
      have "map_of (AList.delete n es) n = None"
        by (simp add: delete_conv')
      with es show ?thesis
        using delete_notin_dom [of n es]
        by (simp add: made_def Get_def Contains_def index_def)
    qed
    with Remove_nil_keys [OF run] show ?thesis by blast
  qed
  have all_closed: "entries m' = Some (nulled es) \<and> nil_keys m' = map fst es"
    if r: "reachable env (m, tr)" and es: "entries m = Some es" and ok: "closes_ok env es tr"
      and run: "Close env (m, tr) = Returns (err, m', tr')"
  proof -
    from reachable_well_formed [OF r] es have "distinct (map fst es)"
      by (simp add: well_formed_def made_def)
    from Close_all_closed [OF es this ok] run have "entries m' = Some (nulled es)"
      by (auto split: option.splits)
    then show ?thesis
      by (simp add: nil_keys_nulled made_def)
  qed
  have failed: "entries m' = Some (nulled pre @ (k, Some s) # post)"
    if r: "reachable env (m, tr)" and es: "entries m = Some (pre @ (k, Some s) # post)"
      and ok: "closes_ok env pre tr" and bad: "stmt_close env (tr @ closed_log pre) s = Some e"
      and run: "Close env (m, tr) = Returns (err, m', tr')"
  proof -
    from reachable_well_formed [OF r] es have "distinct (map fst (pre @ (k, Some s) # post))"
      by (simp add: well_formed_def made_def)
    from Close_fails_at [OF es this ok bad] run show ?thesis
      by simp
  qed
  have closed: "map fst (made m') = map fst (made m)
        \<and> (\<forall>kv\<in>set (made m'). snd kv = None \<or> kv \<in> set (made m))"
    if run: "Close env (m, tr) = Returns (err, m', tr')"
  proof (cases "entries m")
    case None
    with run have "entries m' = None"
      by (auto simp: Close_entries_None split: option.splits)
    with None show ?thesis by (simp add: made_def)
  next
    case (Some es)
    obtain r c t where l: "Close_loop env es es tr = (r, c, t)"
      by (cases "Close_loop env es es tr")
    with run Some have "entries m' = Some c"
      by (auto simp: Close_def split: option.splits if_splits)
    with Close_loop_keeps_keys [OF l] Some show ?thesis
      by (simp add: made_def)
  qed
  have nil: "handle_of m n = None \<and> \<not> Contains m n"
    if "reachable env (m, tr)" "n \<in> set (nil_keys m)"
    using nil_key_handle(2) [OF that] by (simp add: Contains_iff)
  have absent: "ExecContext env x n args (m, tr) = ((None, Some (Errval None (missing_msg n))), tr)
        \<and> QueryContext env x n args (m, tr) = ((None, Some (Errval None (missing_msg n))), tr)
        \<and> QueryRowContext env x n args (m, tr) = ((None, False), tr)
        \<and> snd (snd (AddContext env x n q (m, tr))) = tr @ [DbPrepare d x q]
        \<and> fst (AddContext env x n q (m, tr)) \<noteq> Some (Errval None (exists_msg n))"
    if "Database m = Some d" "handle_of m n = None"
    using nil_handle_as_absent [OF that] by blast
  from unclosed added extended removed all_closed failed closed Contains_iff [of m n] nil absent
  show ?thesis by blast
qed

theorem null_entries_not_reported_witness:
  "reachable_unclosed (test_driver [1] [] None 9)
      (\<lparr>Database = Some 1, entries = Some [(''a'', Some 0), (''b'', Some 1)]\<rparr>,
       [DbPrepare 1 Background ''SELECT 1'', DbPrepare 1 Background ''SELECT 2''])
   \<and> nil_keys \<lparr>Database = Some 1, entries = Some [(''a'', Some 0), (''b'', Some 1)]\<rparr> = []
   \<and> Close (test_driver [1] [] None 9)
        (\<lparr>Database = Some 1, entries = Some [(''a'', Some 0), (''b'', Some 1)]\<rparr>,
         [DbPrepare 1 Background ''SELECT 1'', DbPrepare 1 Background ''SELECT 2''])
      = Returns (Some (Errval (Some (Foreign ''close failed'')) (close_msg ''b'')),
          \<lparr>Database = Some 1, entries = Some [(''a'', None), (''b'', Some 1)]\<rparr>,
          [DbPrepare 1 Background ''SELECT 1'', DbPrepare 1 Background ''SELECT 2'',
          StmtClose 0, StmtClose 1])
   \<and> reachable (test_driver [1] [] None 9)
        (\<lparr>Database = Some 1, entries = Some [(''a'', None), (''b'', Some 1)]\<rparr>,
         [DbPrepare 1 Background ''SELECT 1'', DbPrepare 1 Background ''SELECT 2'',
          StmtClose 0, StmtClose 1])
   \<and> nil_keys \<lparr>Database = Some 1, entries = Some [(''a'', None), (''b'', Some 1)]\<rparr> = [''a'']
   \<and> \<not> Contains \<lparr>Database = Some 1, entries = Some [(''a'', None), (''b'', Some 1)]\<rparr> ''a''
   \<and> ExecContext (test_driver [1] [] None 9) Background ''a'' []
        (\<lparr>Database = Some 1, entries = Some [(''a'', None), (''b'', Some 1)]\<rparr>,
         [DbPrepare 1 Background ''SELECT 1'', DbPrepare 1 Background ''SELECT 2'',
          StmtClose 0, StmtClose 1])
      = ((None, Some (Errval None (missing_msg ''a''))),
         [DbPrepare 1 Background ''SELECT 1'', DbPrepare 1 Background ''SELECT 2'',
          StmtClose 0, StmtClose 1])
   \<and> QueryContext (test_driver [1] [] None 9) Background ''a'' []
        (\<lparr>Database = Some 1, entries = Some [(''a'', None), (''b'', Some 1)]\<rparr>,
         [DbPrepare 1 Background ''SELECT 1'', DbPrepare 1 Background ''SELECT 2'',
          StmtClose 0, StmtClose 1])
      = ((None, Some (Errval None (missing_msg ''a''))),
         [DbPrepare 1 Background ''SELECT 1'', DbPrepare 1 Background ''SELECT 2'',
          StmtClose 0, StmtClose 1])
   \<and> QueryRowContext (test_driver [1] [] None 9) Background ''a'' []
        (\<lparr>Database = Some 1, entries = Some [(''a'', None), (''b'', Some 1)]\<rparr>,
         [DbPrepare 1 Background ''SELECT 1'', DbPrepare 1 Background ''SELECT 2'',
          StmtClose 0, StmtClose 1])
      = ((None, False),
         [DbPrepare 1 Background ''SELECT 1'', DbPrepare 1 Background ''SELECT 2'',
          StmtClose 0, StmtClose 1])
   \<and> AddContext (test_driver [1] [] None 9) Background ''a'' ''SELECT 3''
        (\<lparr>Database = Some 1, entries = Some [(''a'', None), (''b'', Some 1)]\<rparr>,
         [DbPrepare 1 Background ''SELECT 1'', DbPrepare 1 Background ''SELECT 2'',
          StmtClose 0, StmtClose 1])
      = (None, \<lparr>Database = Some 1, entries = Some [(''a'', Some 4), (''b'', Some 1)]\<rparr>,
         [DbPrepare 1 Background ''SELECT 1'', DbPrepare 1 Background ''SELECT 2'',
          StmtClose 0, StmtClose 1] @ [DbPrepare 1 Background ''SELECT 3''])
   \<and> nil_keys \<lparr>Database = Some 1, entries = Some [(''a'', Some 4), (''b'', Some 1)]\<rparr> = []
   \<and> ExtendContext (test_driver [1] [] None 9) Background (Some [(''c'', ''C'')])
        (\<lparr>Database = Some 1, entries = Some [(''a'', None), (''b'', Some 1)]\<rparr>,
         [DbPrepare 1 Background ''SELECT 1'', DbPrepare 1 Background ''SELECT 2'',
          StmtClose 0, StmtClose 1])
      = (None,
         \<lparr>Database = Some 1, entries = Some [(''a'', None), (''b'', Some 1), (''c'', Some 5)]\<rparr>,
         [DbPrepare 1 Background ''SELECT 1'', DbPrepare 1 Background ''SELECT 2'',
          StmtClose 0, StmtClose 1] @ [CtxPoll Background, DbPrepare 1 Background ''C''])
   \<and> set (nil_keys
          \<lparr>Database = Some 1, entries = Some [(''a'', None), (''b'', Some 1), (''c'', Some 5)]\<rparr>)
       \<subseteq> set [''a'']
   \<and> Remove (test_driver [1] [] None 9) ''b''
        (\<lparr>Database = Some 1, entries = Some [(''a'', None), (''b'', Some 1)]\<rparr>,
         [DbPrepare 1 Background ''SELECT 1'', DbPrepare 1 Background ''SELECT 2'',
          StmtClose 0, StmtClose 1])
      = Returns (True, \<lparr>Database = Some 1, entries = Some [(''a'', None)]\<rparr>,
         [DbPrepare 1 Background ''SELECT 1'', DbPrepare 1 Background ''SELECT 2'',
          StmtClose 0, StmtClose 1] @ [StmtClose 1])
   \<and> Get \<lparr>Database = Some 1, entries = Some [(''a'', None)]\<rparr> ''b'' = (None, False)
   \<and> Close (test_driver [1] [] None 9)
        (\<lparr>Database = Some 1, entries = Some [(''a'', None), (''b'', Some 1)]\<rparr>,
         [DbPrepare 1 Background ''SELECT 1'', DbPrepare 1 Background ''SELECT 2'',
          StmtClose 0, StmtClose 1])
      = Returns (None, \<lparr>Database = Some 1, entries = Some [(''a'', None), (''b'', None)]\<rparr>,
          [DbPrepare 1 Background ''SELECT 1'', DbPrepare 1 Background ''SELECT 2'',
          StmtClose 0, StmtClose 1] @ [StmtClose 1, DbClose 1])
   \<and> nil_keys \<lparr>Database = Some 1, entries = Some [(''a'', None), (''b'', None)]\<rparr> = [''a'', ''b'']"
proof -
  let ?E = "test_driver [1] [] None 9"
  let ?m0 = "\<lparr>Database = Some 1, entries = None\<rparr>"
  let ?m1 = "\<lparr>Database = Some 1, entries = Some [(''a'', Some 0)]\<rparr>"
  let ?m2 = "\<lparr>Database = Some 1, entries = Some [(''a'', Some 0), (''b'', Some 1)]\<rparr>"
  let ?m3 = "\<lparr>Database = Some 1, entries = Some [(''a'', None), (''b'', Some 1)]\<rparr>"
  let ?m4 = "\<lparr>Database = Some 1, entries = Some [(''a'', None), (''b'', None)]\<rparr>"
  let ?m5 = "\<lparr>Database = Some 1, entries = Some [(''a'', Some 4), (''b'', Some 1)]\<rparr>"
  let ?m6 = "\<lparr>Database = Some 1, entries = Some [(''a'', None), (''b'', Some 1), (''c'', Some 5)]\<rparr>"
  let ?m7 = "\<lparr>Database = Some 1, entries = Some [(''a'', None)]\<rparr>"
  let ?t1 = "[DbPrepare 1 Background ''SELECT 1'']"
  let ?t2 = "[DbPrepare 1 Background ''SELECT 1'', DbPrepare 1 Background ''SELECT 2'']"
  let ?t3 = "[DbPrepare 1 Background ''SELECT 1'', DbPrepare 1 Background ''SELECT 2'',
          StmtClose 0, StmtClose 1]"
  let ?e = "Errval (Some (Foreign ''close failed'')) (close_msg ''b'')"
  have a: "AddContext ?E Background ''a'' ''SELECT 1'' (?m0, []) = (None, ?m1, ?t1)"
    by (simp add: AddContext_def made_def index_def test_driver_def)
  have b: "AddContext ?E Background ''b'' ''SELECT 2'' (?m1, ?t1) = (None, ?m2, ?t2)"
    by (simp add: AddContext_def made_def index_def test_driver_def)
  have c: "Close ?E (?m2, ?t2) = Returns (Some ?e, ?m3, ?t3)"
    by (simp add: Close_def test_driver_def)
  have c2: "Close ?E (?m3, ?t3) = Returns (None, ?m4, ?t3 @ [StmtClose 1, DbClose 1])"
    by (simp add: Close_def test_driver_def)
  have ad: "AddContext ?E Background ''a'' ''SELECT 3'' (?m3, ?t3)
      = (None, ?m5, ?t3 @ [DbPrepare 1 Background ''SELECT 3''])"
    by (simp add: AddContext_def made_def index_def test_driver_def)
  have ex: "ExtendContext ?E Background (Some [(''c'', ''C'')]) (?m3, ?t3)
      = (None, ?m6, ?t3 @ [CtxPoll Background, DbPrepare 1 Background ''C''])"
    by (simp add: ExtendContext_def made_def poll_def test_driver_def)
  have rm: "Remove ?E ''b'' (?m3, ?t3) = Returns (True, ?m7, ?t3 @ [StmtClose 1])"
    by (simp add: Remove_def index_def)
  have u2: "reachable_unclosed ?E (?m2, ?t2)"
    by (rule reachable_unclosed.add [OF reachable_unclosed.add [OF reachable_unclosed.fresh a] b])
  have r2: "reachable ?E (?m2, ?t2)"
    by (rule reachable.add [OF reachable.add [OF reachable.fresh a] b])
  have r3: "reachable ?E (?m3, ?t3)"
    by (rule reachable.close [OF r2 c])
  have e2: "entries ?m2 = Some ([(''a'', Some 0)] @ (''b'', Some 1) # [])" by simp
  have e3: "entries ?m3 = Some [(''a'', None), (''b'', Some 1)]" by simp
  have ok2: "closes_ok ?E [(''a'', Some 0)] ?t2" by (simp add: test_driver_def)
  have bad2: "stmt_close ?E (?t2 @ closed_log [(''a'', Some 0)]) 1 = Some (Foreign ''close failed'')"
    by (simp add: test_driver_def closed_log_def)
  have ok3: "closes_ok ?E [(''a'', None), (''b'', Some 1)] ?t3" by (simp add: test_driver_def)
  have n3: "nil_keys ?m3 = [''a'']" by (simp add: nil_keys_def made_def)
  have db3: "Database ?m3 = Some 1" by simp
  from null_entries_not_reported [of ?E ?m2 ?t2, THEN conjunct1] u2
  have w1: "nil_keys ?m2 = []" by blast
  from null_entries_not_reported [of ?E ?m2 ?t2 Background "''z''" "''z''" "Some ?e" ?m3 ?t3 None True
      "[]" "[(''a'', Some 0)]" "''b''" 1 "[]" "Foreign ''close failed''",
      THEN conjunct2, THEN conjunct2, THEN conjunct2, THEN conjunct2, THEN conjunct2,
      THEN conjunct1] r2 e2 ok2 bad2 c
  have w6: "entries ?m3 = Some (nulled [(''a'', Some 0)] @ (''b'', Some 1) # [])"
    by blast
  from null_entries_not_reported [of ?E ?m3 ?t3 Background "''z''" "''z''" None ?m4
      "?t3 @ [StmtClose 1, DbClose 1]" None True "[(''a'', None), (''b'', Some 1)]",
      THEN conjunct2, THEN conjunct2, THEN conjunct2, THEN conjunct2, THEN conjunct1] r3 e3 ok3 c2
  have w5: "nil_keys ?m4 = map fst [(''a'', None::stmt option), (''b'', Some 1)]"
    by blast
  note t = null_entries_not_reported [of ?E ?m3 ?t3 Background "''a''" "''SELECT 3''" None ?m5
      "?t3 @ [DbPrepare 1 Background ''SELECT 3'']" None True "[]" "[]" "''z''" 0 "[]"
      "Foreign ''z''" 1 "[]"]
  from t [THEN conjunct2, THEN conjunct1] ad
  have w2: "set (nil_keys ?m5) \<subseteq> set (nil_keys ?m3)" by blast
  from t [THEN conjunct2, THEN conjunct2, THEN conjunct2, THEN conjunct2, THEN conjunct2,
      THEN conjunct2, THEN conjunct2, THEN conjunct2, THEN conjunct1] r3 n3
  have w9: "handle_of ?m3 ''a'' = None \<and> \<not> Contains ?m3 ''a''" by simp
  from t [THEN conjunct2, THEN conjunct2, THEN conjunct2, THEN conjunct2, THEN conjunct2,
      THEN conjunct2, THEN conjunct2, THEN conjunct2, THEN conjunct2] db3 w9
  have w10: "ExecContext ?E Background ''a'' [] (?m3, ?t3)
        = ((None, Some (Errval None (missing_msg ''a''))), ?t3)
      \<and> QueryContext ?E Background ''a'' [] (?m3, ?t3)
        = ((None, Some (Errval None (missing_msg ''a''))), ?t3)
      \<and> QueryRowContext ?E Background ''a'' [] (?m3, ?t3) = ((None, False), ?t3)"
    by blast
  from null_entries_not_reported [of ?E ?m3 ?t3 Background "''c''" "''z''" None ?m6
      "?t3 @ [CtxPoll Background, DbPrepare 1 Background ''C'']" "Some [(''c'', ''C'')]",
      THEN conjunct2, THEN conjunct2, THEN conjunct1] ex
  have w3: "set (nil_keys ?m6) \<subseteq> set (nil_keys ?m3)" by blast
  from null_entries_not_reported [of ?E ?m3 ?t3 Background "''b''" "''z''" None ?m7
      "?t3 @ [StmtClose 1]" None True,
      THEN conjunct2, THEN conjunct2, THEN conjunct2, THEN conjunct1] rm
  have w4: "Get ?m7 ''b'' = (None, False)" by blast
  from w2 n3 have w2': "nil_keys ?m5 = []"
    by (simp add: nil_keys_def made_def)
  from u2 w1 c r3 n3 w9 w10 ad w2' ex w3 rm w4 c2 w5 show ?thesis
    by simp
qed

text \<open>
  The specification has no key with a nil handle in a state that can be reached, and no
  operation that finds one. After \<^verbatim>\<open>Add("a", "SELECT 1")\<close> and \<open>Close\<close> the state has
  the key \<open>a\<close> with a nil handle, for good; \<open>Get\<close> answers \<open>True\<close> for it and \<open>Len\<close>
  counts it.
\<close>

theorem closed_entry_found_counterexample:
  "reachable (test_driver [] [] None 9)
      (\<lparr>Database = Some 1, entries = Some [(''a'', None)]\<rparr>,
       [DbPrepare 1 Background ''SELECT 1'', StmtClose 0, DbClose 1])
   \<and> Get \<lparr>Database = Some 1, entries = Some [(''a'', None)]\<rparr> ''a'' = (None, True)
   \<and> Len \<lparr>Database = Some 1, entries = Some [(''a'', None)]\<rparr> = 1"
proof -
  let ?E = "test_driver [] [] None 9"
  have a: "AddContext ?E Background ''a'' ''SELECT 1'' (\<lparr>Database = Some 1, entries = None\<rparr>, [])
     = (None, \<lparr>Database = Some 1, entries = Some [(''a'', Some 0)]\<rparr>,
        [DbPrepare 1 Background ''SELECT 1''])"
    by (simp add: AddContext_def made_def index_def test_driver_def)
  have c: "Close ?E
        (\<lparr>Database = Some 1, entries = Some [(''a'', Some 0)]\<rparr>, [DbPrepare 1 Background ''SELECT 1''])
     = Returns (None, \<lparr>Database = Some 1, entries = Some [(''a'', None)]\<rparr>,
        [DbPrepare 1 Background ''SELECT 1'', StmtClose 0, DbClose 1])"
    by (simp add: Close_def test_driver_def)
  have "reachable ?E (\<lparr>Database = Some 1, entries = Some [(''a'', None)]\<rparr>,
       [DbPrepare 1 Background ''SELECT 1'', StmtClose 0, DbClose 1])"
    by (rule reachable.close [OF reachable.add [OF reachable.fresh a] c])
  then show ?thesis
    by (simp add: Get_def Len_def len_entries_def index_def)
qed

end
